theory Spec2Isabelle
  imports Complex_Main "HOL-Library.Word" "HOL-Library.Sublist"
begin

section \<open>JavaScript strings and errors\<close>

text \<open>
  A JavaScript string is a sequence of 16-bit UTF-16 code units. Source literals that are
  plain ASCII are written with \<open>js\<close>; other code units (quotes, backticks, newlines, the
  arrow U+2192, the link emoji) are written as numbers.
\<close>

type_synonym jsstring = "16 word list"

definition js :: "string \<Rightarrow> jsstring" where
  "js s = map (\<lambda>c. of_nat (of_char c)) s"

text \<open>The exceptions the built-ins used by the source can raise.\<close>

datatype error = URIError | InvalidCharacterError | TypeError | SyntaxError | NetworkError

definition bindE :: "error + 'a \<Rightarrow> ('a \<Rightarrow> error + 'b) \<Rightarrow> error + 'b" where
  "bindE m f = (case m of Inl e \<Rightarrow> Inl e | Inr x \<Rightarrow> f x)"

definition isHighSurrogate :: "16 word \<Rightarrow> bool" where
  "isHighSurrogate c = (0xD800 \<le> c \<and> c \<le> 0xDBFF)"

definition isLowSurrogate :: "16 word \<Rightarrow> bool" where
  "isLowSurrogate c = (0xDC00 \<le> c \<and> c \<le> 0xDFFF)"

text \<open>\<open>xs.join(sep)\<close> on a list of strings.\<close>

fun join :: "jsstring \<Rightarrow> jsstring list \<Rightarrow> jsstring" where
  "join sep [] = []"
| "join sep [x] = x"
| "join sep (x # y # ys) = x @ sep @ join sep (y # ys)"

text \<open>\<open>s.includes(t)\<close>: \<open>t\<close> occurs in \<open>s\<close> as a contiguous substring.\<close>

fun str_includes :: "jsstring \<Rightarrow> jsstring \<Rightarrow> bool" where
  "str_includes [] t = (t = [])"
| "str_includes (c # cs) t = (prefix t (c # cs) \<or> str_includes cs t)"

section \<open>encodeURIComponent and decodeURIComponent\<close>

definition uriUnescaped :: "16 word \<Rightarrow> bool" where
  "uriUnescaped c =
     ((0x41 \<le> c \<and> c \<le> 0x5A) \<or> (0x61 \<le> c \<and> c \<le> 0x7A) \<or> (0x30 \<le> c \<and> c \<le> 0x39) \<or>
      List.member [0x2D, 0x5F, 0x2E, 0x21, 0x7E, 0x2A, 0x27, 0x28, 0x29] c)"

definition hexUpper :: "nat \<Rightarrow> 16 word" where
  "hexUpper n = (if n < 10 then of_nat (0x30 + n) else of_nat (0x37 + n))"

definition pctByte :: "nat \<Rightarrow> jsstring" where
  "pctByte b = [0x25, hexUpper (b div 16), hexUpper (b mod 16)]"

definition utf8 :: "nat \<Rightarrow> nat list" where
  "utf8 v =
     (if v < 0x80 then [v]
      else if v < 0x800 then [0xC0 + v div 64, 0x80 + v mod 64]
      else if v < 0x10000 then [0xE0 + v div 4096, 0x80 + (v div 64) mod 64, 0x80 + v mod 64]
      else [0xF0 + v div 262144, 0x80 + (v div 4096) mod 64, 0x80 + (v div 64) mod 64,
            0x80 + v mod 64])"

definition pairCodePoint :: "16 word \<Rightarrow> 16 word \<Rightarrow> nat" where
  "pairCodePoint hi lo = (unat hi - 0xD800) * 0x400 + (unat lo - 0xDC00) + 0x10000"

definition pctEncode :: "nat \<Rightarrow> jsstring" where
  "pctEncode v = concat (map pctByte (utf8 v))"

text \<open>
  ECMAScript \<open>Encode\<close> with the unescaped set of \<open>encodeURIComponent\<close>: an unpaired
  surrogate raises \<open>URIError\<close>, every other code point outside the set is written as the
  percent-escaped octets of its UTF-8 encoding.
\<close>

fun encodeURIComponent :: "jsstring \<Rightarrow> error + jsstring" where
  "encodeURIComponent [] = Inr []"
| "encodeURIComponent (c # cs) =
     (if uriUnescaped c then bindE (encodeURIComponent cs) (\<lambda>r. Inr (c # r))
      else if isLowSurrogate c then Inl URIError
      else if \<not> isHighSurrogate c then
        bindE (encodeURIComponent cs) (\<lambda>r. Inr (pctEncode (unat c) @ r))
      else (case cs of
              [] \<Rightarrow> Inl URIError
            | d # ds \<Rightarrow>
                if isLowSurrogate d then
                  bindE (encodeURIComponent ds) (\<lambda>r. Inr (pctEncode (pairCodePoint c d) @ r))
                else Inl URIError))"

definition hexVal :: "16 word \<Rightarrow> nat option" where
  "hexVal c =
     (if 0x30 \<le> c \<and> c \<le> 0x39 then Some (unat c - 0x30)
      else if 0x41 \<le> c \<and> c \<le> 0x46 then Some (unat c - 0x37)
      else if 0x61 \<le> c \<and> c \<le> 0x66 then Some (unat c - 0x57)
      else None)"

text \<open>Reads one escape \<open>%XX\<close> at the head of the string: the octet and the rest.\<close>

fun takeOctet :: "jsstring \<Rightarrow> (nat \<times> jsstring) option" where
  "takeOctet (p # h # l # rest) =
     (if p = 0x25 then
        (case (hexVal h, hexVal l) of
           (Some a, Some b) \<Rightarrow> Some (a * 16 + b, rest)
         | _ \<Rightarrow> None)
      else None)"
| "takeOctet _ = None"

fun takeOctets :: "nat \<Rightarrow> jsstring \<Rightarrow> (nat list \<times> jsstring) option" where
  "takeOctets 0 s = Some ([], s)"
| "takeOctets (Suc n) s =
     (case takeOctet s of
        None \<Rightarrow> None
      | Some (b, r) \<Rightarrow>
          (case takeOctets n r of None \<Rightarrow> None | Some (bs, r') \<Rightarrow> Some (b # bs, r')))"

definition isCont :: "nat \<Rightarrow> bool" where
  "isCont b = (0x80 \<le> b \<and> b < 0xC0)"

text \<open>The code point of a valid UTF-8 encoding of two to four octets.\<close>

fun utf8Decode :: "nat list \<Rightarrow> nat option" where
  "utf8Decode [b0, b1] =
     (let v = (b0 - 0xC0) * 64 + (b1 - 0x80)
      in if isCont b1 \<and> 0x80 \<le> v then Some v else None)"
| "utf8Decode [b0, b1, b2] =
     (let v = (b0 - 0xE0) * 4096 + (b1 - 0x80) * 64 + (b2 - 0x80)
      in if isCont b1 \<and> isCont b2 \<and> 0x800 \<le> v \<and> \<not> (0xD800 \<le> v \<and> v < 0xE000)
         then Some v else None)"
| "utf8Decode [b0, b1, b2, b3] =
     (let v = (b0 - 0xF0) * 262144 + (b1 - 0x80) * 4096 + (b2 - 0x80) * 64 + (b3 - 0x80)
      in if isCont b1 \<and> isCont b2 \<and> isCont b3 \<and> 0x10000 \<le> v \<and> v < 0x110000
         then Some v else None)"
| "utf8Decode _ = None"

definition utf16 :: "nat \<Rightarrow> jsstring" where
  "utf16 v =
     (if v < 0x10000 then [of_nat v]
      else [of_nat (0xD800 + (v - 0x10000) div 0x400), of_nat (0xDC00 + (v - 0x10000) mod 0x400)])"

definition leadingOnes :: "nat \<Rightarrow> nat" where
  "leadingOnes b =
     (if b < 0x80 then 0 else if b < 0xC0 then 1 else if b < 0xE0 then 2
      else if b < 0xF0 then 3 else if b < 0xF8 then 4 else 5)"

lemma takeOctet_length: "takeOctet s = Some (b, r) \<Longrightarrow> length r < length s"
  by (induction s rule: takeOctet.induct) (auto split: if_splits option.splits)

lemma takeOctets_length: "takeOctets n s = Some (bs, r) \<Longrightarrow> length r \<le> length s"
proof (induction n arbitrary: s bs r)
  case 0
  then show ?case by simp
next
  case (Suc n)
  then show ?case
    by (fastforce split: option.splits dest: takeOctet_length)
qed

text \<open>
  ECMAScript \<open>Decode\<close> with the empty reserved set of \<open>decodeURIComponent\<close>: a code unit
  other than \<open>%\<close> is copied; \<open>%XX\<close> below 0x80 is that character; a lead octet announces
  two to four octets, which must follow as escapes and form valid UTF-8; anything else
  raises \<open>URIError\<close>.
\<close>

function decodeURIComponent :: "jsstring \<Rightarrow> error + jsstring" where
  "decodeURIComponent [] = Inr []"
| "decodeURIComponent (c # cs) =
     (if c \<noteq> 0x25 then bindE (decodeURIComponent cs) (\<lambda>r. Inr (c # r))
      else (case takeOctet (c # cs) of
              None \<Rightarrow> Inl URIError
            | Some (b, r1) \<Rightarrow>
                if leadingOnes b = 0 then bindE (decodeURIComponent r1) (\<lambda>r. Inr (of_nat b # r))
                else if leadingOnes b = 1 \<or> 4 < leadingOnes b then Inl URIError
                else (case takeOctets (leadingOnes b - 1) r1 of
                        None \<Rightarrow> Inl URIError
                      | Some (bs, r2) \<Rightarrow>
                          (case utf8Decode (b # bs) of
                             None \<Rightarrow> Inl URIError
                           | Some v \<Rightarrow> bindE (decodeURIComponent r2) (\<lambda>r. Inr (utf16 v @ r))))))"
  by pat_completeness auto
termination
proof (relation "measure length")
  show "wf (measure length)" by simp
next
  fix c :: "16 word" and cs
  show "(cs, c # cs) \<in> measure length" by simp
next
  fix c :: "16 word" and cs x2 b r1
  assume "takeOctet (c # cs) = Some x2" "(b, r1) = x2"
  then have "takeOctet (c # cs) = Some (b, r1)" by simp
  from takeOctet_length [OF this] show "(r1, c # cs) \<in> measure length" by simp
next
  fix c :: "16 word" and cs x2 b r1 x2a bs r2 v
  assume a: "takeOctet (c # cs) = Some x2" "(b, r1) = x2"
    and b: "takeOctets (leadingOnes b - 1) r1 = Some x2a" "(bs, r2) = x2a"
  from a have "takeOctet (c # cs) = Some (b, r1)" by simp
  from takeOctet_length [OF this] have "length r1 < length (c # cs)" .
  moreover from b have "takeOctets (leadingOnes b - 1) r1 = Some (bs, r2)" by simp
  from takeOctets_length [OF this] have "length r2 \<le> length r1" .
  ultimately show "(r2, c # cs) \<in> measure length" by simp
qed

section \<open>btoa and atob\<close>

definition b64char :: "nat \<Rightarrow> 16 word" where
  "b64char n =
     (if n < 26 then of_nat (0x41 + n)
      else if n < 52 then of_nat (0x61 + (n - 26))
      else if n < 62 then of_nat (0x30 + (n - 52))
      else if n = 62 then 0x2B else 0x2F)"

text \<open>Base64 of a list of octets, three octets to four characters, padded with \<open>=\<close>.\<close>

fun b64enc :: "nat list \<Rightarrow> jsstring" where
  "b64enc [] = []"
| "b64enc [a] = [b64char (a div 4), b64char ((a mod 4) * 16), 0x3D, 0x3D]"
| "b64enc [a, b] =
     [b64char (a div 4), b64char ((a mod 4) * 16 + b div 16), b64char ((b mod 16) * 4), 0x3D]"
| "b64enc (a # b # c # r) =
     [b64char (a div 4), b64char ((a mod 4) * 16 + b div 16),
      b64char ((b mod 16) * 4 + c div 64), b64char (c mod 64)] @ b64enc r"

text \<open>
  \<open>btoa\<close> reads each code unit as one octet and raises \<open>InvalidCharacterError\<close> when a
  code unit is above 0xFF.
\<close>

definition btoa :: "jsstring \<Rightarrow> error + jsstring" where
  "btoa s =
     (if list_all (\<lambda>c. c \<le> 0xFF) s then Inr (b64enc (map unat s))
      else Inl InvalidCharacterError)"

definition b64val :: "16 word \<Rightarrow> nat option" where
  "b64val c =
     (if 0x41 \<le> c \<and> c \<le> 0x5A then Some (unat c - 0x41)
      else if 0x61 \<le> c \<and> c \<le> 0x7A then Some (unat c - 0x61 + 26)
      else if 0x30 \<le> c \<and> c \<le> 0x39 then Some (unat c - 0x30 + 52)
      else if c = 0x2B then Some 62
      else if c = 0x2F then Some 63
      else None)"

fun b64dec :: "nat list \<Rightarrow> nat list" where
  "b64dec (w # x # y # z # r) =
     [w * 4 + x div 16, (x mod 16) * 16 + y div 4, (y mod 4) * 64 + z] @ b64dec r"
| "b64dec [w, x, y] = [w * 4 + x div 16, (x mod 16) * 16 + y div 4]"
| "b64dec [w, x] = [w * 4 + x div 16]"
| "b64dec _ = []"

definition asciiWhitespace :: "16 word \<Rightarrow> bool" where
  "asciiWhitespace c = List.member [0x09, 0x0A, 0x0C, 0x0D, 0x20] c"

definition stripPad :: "jsstring \<Rightarrow> jsstring" where
  "stripPad d =
     (if d \<noteq> [] \<and> last d = 0x3D then
        (let d1 = butlast d in if d1 \<noteq> [] \<and> last d1 = 0x3D then butlast d1 else d1)
      else d)"

text \<open>
  \<open>atob\<close> (forgiving base64 decoding): whitespace is dropped, one or two trailing \<open>=\<close> of
  a text whose length is a multiple of four are dropped, a length of 1 modulo 4 or a
  character outside the alphabet raises, and the sextets are regrouped into octets.
\<close>

definition atob :: "jsstring \<Rightarrow> error + jsstring" where
  "atob s =
     (let d = filter (\<lambda>c. \<not> asciiWhitespace c) s;
          d' = (if length d mod 4 = 0 then stripPad d else d)
      in if length d' mod 4 = 1 then Inl InvalidCharacterError
         else (case those (map b64val d') of
                 None \<Rightarrow> Inl InvalidCharacterError
               | Some vs \<Rightarrow> Inr (map of_nat (b64dec vs))))"

section \<open>JSON.stringify on object literals of strings\<close>

text \<open>
  The configuration fragments of the source are object literals whose leaves are strings.
  An object is the list of its properties in insertion order; none of the keys the source
  writes beside each other is an array index, so insertion order is enumeration order.
\<close>

datatype jsonv = JStr jsstring | JObj "(jsstring \<times> jsonv) list"

definition hexLower :: "nat \<Rightarrow> 16 word" where
  "hexLower n = (if n < 10 then of_nat (0x30 + n) else of_nat (0x57 + n))"

definition unicodeEscape :: "16 word \<Rightarrow> jsstring" where
  "unicodeEscape c =
     [0x5C, 0x75, hexLower (unat c div 4096), hexLower ((unat c div 256) mod 16),
      hexLower ((unat c div 16) mod 16), hexLower (unat c mod 16)]"

text \<open>
  The body of \<open>QuoteJSONString\<close>: the short escapes, \<open>\u\<close> escapes for the other control
  characters and for unpaired surrogates, everything else (surrogate pairs too) verbatim.
\<close>

fun jsonEscape :: "jsstring \<Rightarrow> jsstring" where
  "jsonEscape [] = []"
| "jsonEscape (c # cs) =
     (if c = 0x08 then [0x5C, 0x62] @ jsonEscape cs
      else if c = 0x09 then [0x5C, 0x74] @ jsonEscape cs
      else if c = 0x0A then [0x5C, 0x6E] @ jsonEscape cs
      else if c = 0x0C then [0x5C, 0x66] @ jsonEscape cs
      else if c = 0x0D then [0x5C, 0x72] @ jsonEscape cs
      else if c = 0x22 then [0x5C, 0x22] @ jsonEscape cs
      else if c = 0x5C then [0x5C, 0x5C] @ jsonEscape cs
      else if c < 0x20 then unicodeEscape c @ jsonEscape cs
      else if isHighSurrogate c then
        (case cs of
           [] \<Rightarrow> unicodeEscape c
         | d # ds \<Rightarrow>
             if isLowSurrogate d then c # d # jsonEscape ds
             else unicodeEscape c @ jsonEscape cs)
      else if isLowSurrogate c then unicodeEscape c @ jsonEscape cs
      else c # jsonEscape cs)"

definition quoteJSON :: "jsstring \<Rightarrow> jsstring" where
  "quoteJSON s = [0x22] @ jsonEscape s @ [0x22]"

text \<open>\<open>JSON.stringify(v)\<close>: no whitespace.\<close>

fun JSON_stringify :: "jsonv \<Rightarrow> jsstring" where
  "JSON_stringify (JStr s) = quoteJSON s"
| "JSON_stringify (JObj kvs) =
     [0x7B] @ join [0x2C] (map (\<lambda>(k, v). quoteJSON k @ [0x3A] @ JSON_stringify v) kvs) @ [0x7D]"

text \<open>
  \<open>JSON.stringify(v, null, 2)\<close>: \<open>ind\<close> is the current indentation; each nesting level
  adds the gap of two spaces.
\<close>

fun JSON_stringify_gap :: "jsstring \<Rightarrow> jsonv \<Rightarrow> jsstring" where
  "JSON_stringify_gap ind (JStr s) = quoteJSON s"
| "JSON_stringify_gap ind (JObj kvs) =
     (if kvs = [] then [0x7B, 0x7D]
      else [0x7B, 0x0A] @ (ind @ [0x20, 0x20]) @
           join ([0x2C, 0x0A] @ (ind @ [0x20, 0x20]))
             (map (\<lambda>(k, v). quoteJSON k @ [0x3A, 0x20] @ JSON_stringify_gap (ind @ [0x20, 0x20]) v)
                kvs) @
           [0x0A] @ ind @ [0x7D])"

definition JSON_stringify_2 :: "jsonv \<Rightarrow> jsstring" where
  "JSON_stringify_2 v = JSON_stringify_gap [] v"

section \<open>JSON.parse on texts of objects and strings\<close>

text \<open>
  The reader used to state the round trips: \<open>JSON.parse\<close> restricted to texts whose
  values are strings and objects without a repeated key (on any other text this reader
  gives \<open>None\<close>). The first argument of the two mutually recursive functions bounds the
  number of nested calls; the length of the text is always enough.
\<close>

definition jsonWs :: "16 word \<Rightarrow> bool" where
  "jsonWs c = (c = 0x20 \<or> c = 0x09 \<or> c = 0x0A \<or> c = 0x0D)"

definition skipWs :: "jsstring \<Rightarrow> jsstring" where
  "skipWs s = dropWhile jsonWs s"

definition simpleEscape :: "16 word \<Rightarrow> 16 word option" where
  "simpleEscape e =
     (if e = 0x22 then Some 0x22 else if e = 0x5C then Some 0x5C else if e = 0x2F then Some 0x2F
      else if e = 0x62 then Some 0x08 else if e = 0x66 then Some 0x0C
      else if e = 0x6E then Some 0x0A else if e = 0x72 then Some 0x0D
      else if e = 0x74 then Some 0x09 else None)"

definition hex4 :: "16 word \<Rightarrow> 16 word \<Rightarrow> 16 word \<Rightarrow> 16 word \<Rightarrow> 16 word option" where
  "hex4 h1 h2 h3 h4 =
     (case (hexVal h1, hexVal h2, hexVal h3, hexVal h4) of
        (Some a, Some b, Some c, Some d) \<Rightarrow> Some (of_nat (((a * 16 + b) * 16 + c) * 16 + d))
      | _ \<Rightarrow> None)"

text \<open>The characters of a string after its opening quote: the string and the rest.\<close>

fun parseStringBody :: "jsstring \<Rightarrow> (jsstring \<times> jsstring) option" where
  "parseStringBody [] = None"
| "parseStringBody (c # cs) =
     (if c = 0x22 then Some ([], cs)
      else if c = 0x5C then
        (case cs of
           [] \<Rightarrow> None
         | e # es \<Rightarrow>
             if e = 0x75 then
               (case es of
                  h1 # h2 # h3 # h4 # r \<Rightarrow>
                    (case hex4 h1 h2 h3 h4 of
                       None \<Rightarrow> None
                     | Some u \<Rightarrow>
                         (case parseStringBody r of
                            None \<Rightarrow> None
                          | Some (str, rest) \<Rightarrow> Some (u # str, rest)))
                | _ \<Rightarrow> None)
             else
               (case simpleEscape e of
                  None \<Rightarrow> None
                | Some u \<Rightarrow>
                    (case parseStringBody es of
                       None \<Rightarrow> None
                     | Some (str, rest) \<Rightarrow> Some (u # str, rest))))
      else if c < 0x20 then None
      else (case parseStringBody cs of
              None \<Rightarrow> None
            | Some (str, rest) \<Rightarrow> Some (c # str, rest)))"

fun parseValue :: "nat \<Rightarrow> jsstring \<Rightarrow> (jsonv \<times> jsstring) option"
  and parseMembers :: "nat \<Rightarrow> jsstring \<Rightarrow> ((jsstring \<times> jsonv) list \<times> jsstring) option" where
  "parseValue 0 s = None"
| "parseValue (Suc n) s =
     (case skipWs s of
        [] \<Rightarrow> None
      | c # cs \<Rightarrow>
          if c = 0x22 then
            (case parseStringBody cs of None \<Rightarrow> None | Some (str, r) \<Rightarrow> Some (JStr str, r))
          else if c = 0x7B then
            (case skipWs cs of
               [] \<Rightarrow> None
             | d # ds \<Rightarrow>
                 if d = 0x7D then Some (JObj [], ds)
                 else (case parseMembers n (d # ds) of
                         None \<Rightarrow> None
                       | Some (kvs, r) \<Rightarrow>
                           if distinct (map fst kvs) then Some (JObj kvs, r) else None))
          else None)"
| "parseMembers 0 s = None"
| "parseMembers (Suc n) s =
     (case skipWs s of
        [] \<Rightarrow> None
      | c # cs \<Rightarrow>
          if c \<noteq> 0x22 then None
          else
            (case parseStringBody cs of
               None \<Rightarrow> None
             | Some (k, r1) \<Rightarrow>
                 (case skipWs r1 of
                    [] \<Rightarrow> None
                  | c1 # r2 \<Rightarrow>
                      if c1 \<noteq> 0x3A then None
                      else
                        (case parseValue n r2 of
                           None \<Rightarrow> None
                         | Some (v, r3) \<Rightarrow>
                             (case skipWs r3 of
                                [] \<Rightarrow> None
                              | c3 # r4 \<Rightarrow>
                                  if c3 = 0x7D then Some ([(k, v)], r4)
                                  else if c3 = 0x2C then
                                    (case parseMembers n r4 of
                                       None \<Rightarrow> None
                                     | Some (kvs, r5) \<Rightarrow> Some ((k, v) # kvs, r5))
                                  else None)))))"

definition JSON_parse :: "jsstring \<Rightarrow> jsonv option" where
  "JSON_parse s =
     (case parseValue (length s) s of
        None \<Rightarrow> None
      | Some (v, r) \<Rightarrow> if skipWs r = [] then Some v else None)"

section \<open>String.prototype.replaceAll\<close>

text \<open>
  \<open>s.replaceAll(pat, rep)\<close> for a string pattern and a replacement without \<open>$\<close>: the
  occurrences of \<open>pat\<close> are found from left to right without overlap. An empty pattern
  matches before every code unit and at the end.
\<close>

function replaceAll_from :: "jsstring \<Rightarrow> jsstring \<Rightarrow> jsstring \<Rightarrow> jsstring" where
  "replaceAll_from pat rep [] = []"
| "replaceAll_from pat rep (c # cs) =
     (if pat \<noteq> [] \<and> prefix pat (c # cs)
      then rep @ replaceAll_from pat rep (drop (length pat) (c # cs))
      else c # replaceAll_from pat rep cs)"
  by pat_completeness auto
termination
  by (relation "measure (\<lambda>(pat, rep, s). length s)") (auto simp: neq_Nil_conv)

definition replaceAll :: "jsstring \<Rightarrow> jsstring \<Rightarrow> jsstring \<Rightarrow> jsstring" where
  "replaceAll s pat rep =
     (if pat = [] then rep @ concat (map (\<lambda>c. c # rep) s) else replaceAll_from pat rep s)"

section \<open>The catalog builder (index.js)\<close>

record MCPConfig =
  client :: jsstring
  iconUrl :: jsstring
  deepLink :: "jsstring option"
  remoteCommand :: "jsstring option"
  instructions :: jsstring
  configJson :: "jsonv option"

definition arrow :: jsstring where
  "arrow = [0x2192]"

definition claudeDesktopInstructions :: "jsstring \<Rightarrow> jsstring \<Rightarrow> jsstring" where
  "claudeDesktopInstructions mcpUrl serverName =
     js ''Go to Settings '' @ arrow @ js '' Connectors '' @ arrow @
     js '' Add Custom Connector and fill in:'' @ [0x0A] @
     js ''- **Name**: '' @ serverName @ [0x0A] @
     js ''- **URL**: '' @ mcpUrl @ [0x0A] @
     [0x0A] @
     js ''Please note that if you are part of an organisation, you may not have access to custom connectors at this point. Ask your org administrator.''"

definition chatGPTInstructions :: "jsstring \<Rightarrow> jsstring \<Rightarrow> jsstring" where
  "chatGPTInstructions mcpUrl serverName =
     js ''First, go to '' @ [0x27] @ js ''Settings -> Connectors -> Advanced Settings'' @ [0x27] @
     js '' and turn on '' @ [0x27] @ js ''Developer Mode'' @ [0x27] @ js ''.'' @ [0x0A] @
     [0x0A] @
     js ''Then, in connector settings click '' @ [0x27] @ js ''create'' @ [0x27] @ js ''.'' @ [0x0A] @
     js ''      '' @ [0x0A] @
     js ''Fill in:'' @ [0x0A] @
     [0x0A] @
     js ''- **Name**: '' @ serverName @ [0x0A] @
     js ''- **URL**: '' @ mcpUrl @ [0x0A] @
     js ''- **Authentication**: OAuth'' @ [0x0A] @
     [0x0A] @
     js ''In a new chat ensure developer mode is turned on with the connector(s) selected.'' @ [0x0A] @
     [0x0A] @
     js ''Please note that <a href='' @ [0x22] @
     js ''https://platform.openai.com/docs/guides/developer-mode'' @ [0x22] @
     js '' target='' @ [0x22] @ js ''_blank'' @ [0x22] @
     js ''>Developer Mode</a> must be enabled and this feature may not be available for everyone.''"

text \<open>The name as the Claude Code command line takes it.\<close>

definition sanitizedName :: "jsstring \<Rightarrow> jsstring" where
  "sanitizedName serverName =
     replaceAll (replaceAll serverName (js '' '') (js ''-'')) (js ''.'') (js ''_'')"

text \<open>
  \<open>generateMCPConfig(mcpUrl, serverName)\<close>. The array literal is evaluated entry by
  entry, so the built-ins that can raise are called in the order of the source: for the
  Cursor entry \<open>encodeURIComponent(serverName)\<close> and \<open>btoa(JSON.stringify({url}))\<close>, for
  the VS Code entry \<open>encodeURIComponent(serverName)\<close> and
  \<open>encodeURIComponent(JSON.stringify({type, url}))\<close>. The other entries only concatenate.
\<close>

definition generateMCPConfig :: "jsstring \<Rightarrow> jsstring \<Rightarrow> error + MCPConfig list" where
  "generateMCPConfig mcpUrl serverName =
     bindE (encodeURIComponent serverName) (\<lambda>cursorName.
     bindE (btoa (JSON_stringify (JObj [(js ''url'', JStr mcpUrl)]))) (\<lambda>cursorConfig.
     bindE (encodeURIComponent serverName) (\<lambda>vscodeName.
     bindE (encodeURIComponent
              (JSON_stringify (JObj [(js ''type'', JStr (js ''http'')), (js ''url'', JStr mcpUrl)])))
       (\<lambda>vscodeConfig.
     Inr [
       \<lparr> client = js ''Cursor'',
         iconUrl = js ''https://www.google.com/s2/favicons?domain=cursor.com&sz=64'',
         deepLink = Some (js ''https://cursor.com/en/install-mcp?name='' @ cursorName @
                          js ''&config='' @ cursorConfig),
         remoteCommand = None,
         instructions = js ''Add to '' @ [0x60] @ js ''~/.cursor/mcp.json'' @ [0x60] @ js '' or '' @
                        [0x60] @ js ''.cursor/mcp.json'' @ [0x60] @ js '' (project-specific)'',
         configJson = Some (JObj [(js ''mcpServers'',
                        JObj [(serverName, JObj [(js ''url'', JStr mcpUrl)])])]) \<rparr>,
       \<lparr> client = js ''VS Code'',
         iconUrl = js ''https://www.google.com/s2/favicons?domain=code.visualstudio.com&sz=64'',
         deepLink = Some (js ''https://insiders.vscode.dev/redirect/mcp/install?name='' @ vscodeName @
                          js ''&config='' @ vscodeConfig),
         remoteCommand = None,
         instructions = js ''Add to VS Code settings.json'',
         configJson = Some (JObj [(js ''mcp'',
                        JObj [(js ''servers'',
                          JObj [(serverName,
                            JObj [(js ''type'', JStr (js ''http'')), (js ''url'', JStr mcpUrl)])])])]) \<rparr>,
       \<lparr> client = js ''Claude Desktop / Claude.ai'',
         iconUrl = js ''https://www.google.com/s2/favicons?domain=claude.ai&sz=64'',
         deepLink = None,
         remoteCommand = None,
         instructions = claudeDesktopInstructions mcpUrl serverName,
         configJson = None \<rparr>,
       \<lparr> client = js ''Claude Code'',
         iconUrl = js ''https://www.google.com/s2/favicons?domain=claude.ai&sz=64'',
         deepLink = None,
         remoteCommand = Some (js ''claude mcp add --transport http '' @ [0x22] @
                               sanitizedName serverName @ [0x22] @ js '' '' @ mcpUrl),
         instructions = js ''Run the command in your terminal'',
         configJson = None \<rparr>,
       \<lparr> client = js ''Windsurf'',
         iconUrl = js ''https://www.google.com/s2/favicons?domain=codeium.com&sz=64'',
         deepLink = None,
         remoteCommand = None,
         instructions = js ''Add to your Windsurf MCP configuration'',
         configJson = Some (JObj [(js ''mcpServers'',
                        JObj [(serverName, JObj [(js ''serverUrl'', JStr mcpUrl)])])]) \<rparr>,
       \<lparr> client = js ''Cline'',
         iconUrl = js ''https://www.google.com/s2/favicons?domain=github.com&sz=64'',
         deepLink = None,
         remoteCommand = None,
         instructions = js ''Go to MCP Servers section '' @ arrow @ js '' Remote Servers '' @ arrow @
                        js '' Edit Configuration'',
         configJson = Some (JObj [(js ''mcpServers'',
                        JObj [(serverName,
                          JObj [(js ''url'', JStr mcpUrl),
                                (js ''type'', JStr (js ''streamableHttp''))])])]) \<rparr>,
       \<lparr> client = js ''Gemini CLI'',
         iconUrl = js ''https://www.google.com/s2/favicons?domain=gemini.google.com&sz=64'',
         deepLink = None,
         remoteCommand = None,
         instructions = js ''Add to '' @ [0x60] @ js ''~/.gemini/settings.json'' @ [0x60],
         configJson = Some (JObj [(js ''mcpServers'',
                        JObj [(serverName, JObj [(js ''httpUrl'', JStr mcpUrl)])])]) \<rparr>,
       \<lparr> client = js ''ChatGPT'',
         iconUrl = js ''https://www.google.com/s2/favicons?domain=chatgpt.com&sz=64'',
         deepLink = None,
         remoteCommand = None,
         instructions = chatGPTInstructions mcpUrl serverName,
         configJson = None \<rparr>
     ]))))"

section \<open>The markdown guide (index.js)\<close>

text \<open>The text one iteration of the \<open>forEach\<close> appends before the separator.\<close>

definition guideSection :: "MCPConfig \<Rightarrow> jsstring" where
  "guideSection config =
     js ''## '' @ client config @ [0x0A, 0x0A] @
     (case deepLink config of
        Some d \<Rightarrow>
          if d \<noteq> [] then
            [0x5B, 0xD83D, 0xDD17] @ js '' Install via deep link]('' @ d @ js '')'' @ [0x0A, 0x0A]
          else []
      | None \<Rightarrow> []) @
     (case remoteCommand config of
        Some r \<Rightarrow>
          if r \<noteq> [] then
            js ''**Command:**'' @ [0x0A, 0x60, 0x60, 0x60] @ js ''bash'' @ [0x0A] @ r @
            [0x0A, 0x60, 0x60, 0x60, 0x0A, 0x0A]
          else []
      | None \<Rightarrow> []) @
     js ''**Instructions:** '' @ instructions config @ [0x0A, 0x0A] @
     (case configJson config of
        Some j \<Rightarrow>
          js ''**Configuration:**'' @ [0x0A, 0x60, 0x60, 0x60] @ js ''json'' @ [0x0A] @
          JSON_stringify_2 j @ [0x0A, 0x60, 0x60, 0x60, 0x0A, 0x0A]
      | None \<Rightarrow> [])"

definition guideRule :: jsstring where
  "guideRule = js ''---'' @ [0x0A, 0x0A]"

text \<open>
  The \<open>forEach\<close> over the configurations: \<open>n\<close> is \<open>configs.length\<close>, \<open>index\<close> the
  index of the head of the remaining list, \<open>markdown\<close> the text so far. The test
  \<open>index < configs.length - 1\<close> is written without subtraction.
\<close>

fun guideLoop :: "nat \<Rightarrow> nat \<Rightarrow> MCPConfig list \<Rightarrow> jsstring \<Rightarrow> jsstring" where
  "guideLoop n index [] markdown = markdown"
| "guideLoop n index (config # rest) markdown =
     guideLoop n (Suc index) rest
       (markdown @ guideSection config @ (if Suc index < n then guideRule else []))"

definition guideHeader :: "jsstring \<Rightarrow> jsstring \<Rightarrow> jsstring" where
  "guideHeader mcpUrl serverName =
     js ''# MCP Server Installation Guide'' @ [0x0A, 0x0A] @
     js ''**Server Name**: '' @ [0x60] @ serverName @ [0x60] @ js ''  '' @ [0x0A] @
     js ''**Server URL**: '' @ [0x60] @ mcpUrl @ [0x60] @ [0x0A, 0x0A]"

definition generateMCPInstallationGuide :: "jsstring \<Rightarrow> jsstring \<Rightarrow> error + jsstring" where
  "generateMCPInstallationGuide mcpUrl serverName =
     bindE (generateMCPConfig mcpUrl serverName) (\<lambda>configs.
       Inr (guideLoop (length configs) 0 configs (guideHeader mcpUrl serverName)))"

section \<open>Values parsed from a response\<close>

text \<open>
  What \<open>response.json()\<close> can produce. An object is the list of its own properties, one
  entry per key, as \<open>JSON.parse\<close> builds it. The source never computes with a number; it
  only tests whether one is zero. A property that is missing reads as \<open>undefined\<close>, which
  is \<open>None\<close> of \<open>json option\<close>.
\<close>

datatype json =
    JNull
  | JBool bool
  | JNumber real
  | JString jsstring
  | JArray "json list"
  | JObject "(jsstring \<times> json) list"

fun truthy :: "json option \<Rightarrow> bool" where
  "truthy None = False"
| "truthy (Some JNull) = False"
| "truthy (Some (JBool b)) = b"
| "truthy (Some (JNumber x)) = (x \<noteq> 0)"
| "truthy (Some (JString s)) = (s \<noteq> [])"
| "truthy (Some (JArray xs)) = True"
| "truthy (Some (JObject kvs)) = True"

text \<open>
  \<open>v.key\<close> for the keys the source reads (\<open>transport\<close>, \<open>type\<close>, \<open>endpoint\<close>,
  \<open>url\<close>, \<open>serverInfo\<close>, \<open>title\<close>), none of which is a property of a built-in
  prototype: reading a property of \<open>null\<close> raises \<open>TypeError\<close>, an object gives its own
  property, every other value gives \<open>undefined\<close>.
\<close>

fun getProp :: "json \<Rightarrow> jsstring \<Rightarrow> error + json option" where
  "getProp JNull key = Inl TypeError"
| "getProp (JObject kvs) key = Inr (map_of kvs key)"
| "getProp v key = Inr None"

text \<open>\<open>v?.key\<close>: \<open>undefined\<close> when \<open>v\<close> is \<open>undefined\<close> or \<open>null\<close>.\<close>

fun optProp :: "json option \<Rightarrow> jsstring \<Rightarrow> json option" where
  "optProp None key = None"
| "optProp (Some (JObject kvs)) key = map_of kvs key"
| "optProp (Some v) key = None"

section \<open>The platform\<close>

text \<open>
  The worker reaches outside the program in three places, which are parameters of the
  model: \<open>fetch\<close> (a rejected promise is \<open>Inl\<close>; a response carries \<open>ok\<close> and the outcome
  of \<open>response.json()\<close>, which rejects on a malformed body), the \<open>href\<close> of
  \<open>new URL(value, base)\<close> (which raises \<open>TypeError\<close> on an invalid URL), and the string
  conversion of a value that is not a string.
\<close>

record response =
  ok :: bool
  json_result :: "error + json"

record platform =
  fetch :: "jsstring \<Rightarrow> error + response"
  newURL_href :: "json option \<Rightarrow> jsstring \<Rightarrow> error + jsstring"
  toStr :: "json \<Rightarrow> error + jsstring"

section \<open>The metadata resolver (worker)\<close>

text \<open>\<open>s.split(sep)\<close> for a separator of one code unit: never the empty list.\<close>

fun split_on :: "16 word \<Rightarrow> jsstring \<Rightarrow> jsstring list" where
  "split_on sep [] = [[]]"
| "split_on sep (c # cs) =
     (if c = sep then [] # split_on sep cs
      else (case split_on sep cs of
              [] \<Rightarrow> [[c]]
            | seg # segs \<Rightarrow> (c # seg) # segs))"

definition wellKnownUrl :: "jsstring \<Rightarrow> jsstring" where
  "wellKnownUrl mcpUrl =
     join (js ''/'') (butlast (split_on 0x2F mcpUrl)) @ js ''/.well-known/mcp''"

text \<open>The callback of \<open>data.find\<close>, applied to the card \<open>crd\<close>.\<close>

definition cardMatches :: "platform \<Rightarrow> jsstring \<Rightarrow> json \<Rightarrow> error + bool" where
  "cardMatches P mcpUrl crd =
     bindE (getProp crd (js ''transport'')) (\<lambda>transport.
       case transport of
         None \<Rightarrow> Inr False
       | Some t \<Rightarrow>
           if \<not> truthy (Some t) then Inr False
           else
             bindE (getProp t (js ''type'')) (\<lambda>ty.
               if ty = Some (JString (js ''streamable-http'')) \<or> ty = Some (JString (js ''sse''))
               then
                 bindE (if ty = Some (JString (js ''streamable-http''))
                        then bindE (getProp t (js ''endpoint'')) (\<lambda>e.
                               bindE (newURL_href P e mcpUrl) (\<lambda>href. Inr (Some (JString href))))
                        else getProp t (js ''url''))
                   (\<lambda>transportUrl.
                      if transportUrl = Some (JString mcpUrl) then Inr True
                      else
                        bindE (getProp t (js ''endpoint'')) (\<lambda>e.
                          if truthy e then
                            (case e of
                               Some (JString s) \<Rightarrow> Inr (str_includes mcpUrl s)
                             | Some v \<Rightarrow> bindE (toStr P v) (\<lambda>s. Inr (str_includes mcpUrl s))
                             | None \<Rightarrow> Inr (str_includes mcpUrl []))
                          else Inr (str_includes mcpUrl [])))
               else Inr False))"

text \<open>\<open>data.find(callback)\<close>: the first card the callback accepts; an exception leaves.\<close>

fun find_card :: "platform \<Rightarrow> jsstring \<Rightarrow> json list \<Rightarrow> error + json option" where
  "find_card P mcpUrl [] = Inr None"
| "find_card P mcpUrl (crd # cards) =
     bindE (cardMatches P mcpUrl crd) (\<lambda>m.
       if m then Inr (Some crd) else find_card P mcpUrl cards)"

text \<open>\<open>match || data[0] || null\<close>.\<close>

definition matchOrFirst :: "json option \<Rightarrow> json list \<Rightarrow> json" where
  "matchOrFirst m cards =
     (case m of
        Some c \<Rightarrow> if truthy m then c else
                   (case cards of [] \<Rightarrow> JNull | d # ds \<Rightarrow> if truthy (Some d) then d else JNull)
      | None \<Rightarrow> (case cards of [] \<Rightarrow> JNull | d # ds \<Rightarrow> if truthy (Some d) then d else JNull))"

text \<open>The body of the \<open>try\<close> block.\<close>

definition fetchMCPMetadata_try :: "platform \<Rightarrow> jsstring \<Rightarrow> error + json" where
  "fetchMCPMetadata_try P mcpUrl =
     bindE (fetch P (wellKnownUrl mcpUrl)) (\<lambda>response.
       if \<not> ok response then Inr JNull
       else
         bindE (json_result response) (\<lambda>data.
           case data of
             JArray cards \<Rightarrow>
               bindE (find_card P mcpUrl cards) (\<lambda>m. Inr (matchOrFirst m cards))
           | _ \<Rightarrow> Inr data))"

text \<open>
  \<open>fetchMCPMetadata(mcpUrl)\<close>: the \<open>catch\<close> turns every exception of the block into
  \<open>null\<close>. The result is \<open>Inr\<close> of the resolved value; \<open>Inl\<close> would be an exception
  reaching the caller.
\<close>

definition fetchMCPMetadata :: "platform \<Rightarrow> jsstring \<Rightarrow> error + json" where
  "fetchMCPMetadata P mcpUrl =
     (case fetchMCPMetadata_try P mcpUrl of
        Inl e \<Rightarrow> Inr JNull
      | Inr v \<Rightarrow> Inr v)"

section \<open>Icon selection (worker)\<close>

record Icon =
  src :: jsstring
  mimeType :: "jsstring option"

text \<open>\<open>icon.mimeType?.match(/image\/(png|jpeg|jpg)/)\<close>: the pattern is not anchored.\<close>

definition isPngOrJpeg :: "Icon \<Rightarrow> bool" where
  "isPngOrJpeg icon =
     (case mimeType icon of
        None \<Rightarrow> False
      | Some m \<Rightarrow> str_includes m (js ''image/png'') \<or> str_includes m (js ''image/jpeg'') \<or>
                  str_includes m (js ''image/jpg''))"

definition isSvg :: "Icon \<Rightarrow> bool" where
  "isSvg icon = (mimeType icon = Some (js ''image/svg+xml''))"

definition getBestIcon :: "Icon list option \<Rightarrow> jsstring option" where
  "getBestIcon icons =
     (case icons of
        None \<Rightarrow> None
      | Some [] \<Rightarrow> None
      | Some (first # others) \<Rightarrow>
          (case find isPngOrJpeg (first # others) of
             Some preferred \<Rightarrow> Some (src preferred)
           | None \<Rightarrow>
               (case find isSvg (first # others) of
                  Some svg \<Rightarrow> Some (src svg)
                | None \<Rightarrow> Some (src first))))"

section \<open>The request handler (worker)\<close>

text \<open>\<open>metadata?.serverInfo?.title || decodeURIComponent(pathParts[0])\<close>.\<close>

definition metadataTitle :: "json \<Rightarrow> json option" where
  "metadataTitle metadata = optProp (optProp (Some metadata) (js ''serverInfo'')) (js ''title'')"

definition handler_serverName :: "json \<Rightarrow> jsstring \<Rightarrow> error + json" where
  "handler_serverName metadata pathPart =
     (case metadataTitle metadata of
        Some t \<Rightarrow>
          if truthy (Some t) then Inr t
          else bindE (decodeURIComponent pathPart) (\<lambda>s. Inr (JString s))
      | None \<Rightarrow> bindE (decodeURIComponent pathPart) (\<lambda>s. Inr (JString s)))"

text \<open>
  \<open>generateMCPConfig\<close> called with a name that is not a string: the Cursor entry converts
  it to a string and encodes as before; the Claude Code entry then calls
  \<open>serverName.replaceAll\<close>, which no value parsed from JSON other than a string has.
\<close>

definition generateMCPConfig_nonstring :: "platform \<Rightarrow> jsstring \<Rightarrow> json \<Rightarrow> error + MCPConfig list" where
  "generateMCPConfig_nonstring P mcpUrl v =
     bindE (toStr P v) (\<lambda>s.
     bindE (encodeURIComponent s) (\<lambda>cursorName.
     bindE (btoa (JSON_stringify (JObj [(js ''url'', JStr mcpUrl)]))) (\<lambda>cursorConfig.
     Inl TypeError)))"

text \<open>The descriptor list the handler builds for a request, on either of its two paths.\<close>

definition handler_configs :: "platform \<Rightarrow> json \<Rightarrow> jsstring \<Rightarrow> jsstring \<Rightarrow> error + MCPConfig list" where
  "handler_configs P metadata pathPart mcpUrl =
     bindE (handler_serverName metadata pathPart) (\<lambda>serverName.
       case serverName of
         JString s \<Rightarrow> generateMCPConfig mcpUrl s
       | v \<Rightarrow> generateMCPConfig_nonstring P mcpUrl v)"

section \<open>Notions used to state the claims\<close>

text \<open>\<open>s.isWellFormed()\<close>: the string has no unpaired surrogate.\<close>

fun isWellFormed :: "jsstring \<Rightarrow> bool" where
  "isWellFormed [] = True"
| "isWellFormed (c # cs) =
     (if isLowSurrogate c then False
      else if isHighSurrogate c then
        (case cs of [] \<Rightarrow> False | d # ds \<Rightarrow> isLowSurrogate d \<and> isWellFormed ds)
      else isWellFormed cs)"

text \<open>Every code unit of the string is at most 0xFF.\<close>

definition latin1 :: "jsstring \<Rightarrow> bool" where
  "latin1 s = list_all (\<lambda>c. c \<le> 0xFF) s"

text \<open>The client names of the catalog, in the order of the array literal.\<close>

definition catalogClients :: "jsstring list" where
  "catalogClients =
     [js ''Cursor'', js ''VS Code'', js ''Claude Desktop / Claude.ai'', js ''Claude Code'',
      js ''Windsurf'', js ''Cline'', js ''Gemini CLI'', js ''ChatGPT'']"

text \<open>
  The values the reader gives back: no object, at any depth, has a repeated key.
\<close>

fun wfv :: "jsonv \<Rightarrow> bool" where
  "wfv (JStr s) = True"
| "wfv (JObj kvs) = (distinct (map fst kvs) \<and> list_all (\<lambda>(k, v). wfv v) kvs)"

text \<open>
  A configuration fragment, written by \<open>JSON.stringify\<close> with or without indentation,
  is read back as itself.
\<close>

definition parsesBack :: "jsonv option \<Rightarrow> bool" where
  "parsesBack fragment =
     (case fragment of
        None \<Rightarrow> True
      | Some j \<Rightarrow> JSON_parse (JSON_stringify j) = Some j \<and> JSON_parse (JSON_stringify_2 j) = Some j)"

text \<open>
  The text of a query parameter as it stands in a URL, without decoding: the query is what
  follows the first \<open>?\<close>, its parameters are separated by \<open>&\<close>, and the value follows
  \<open>key=\<close>.
\<close>

definition queryString :: "jsstring \<Rightarrow> jsstring" where
  "queryString url = (case dropWhile (\<lambda>c. c \<noteq> 0x3F) url of [] \<Rightarrow> [] | q # rest \<Rightarrow> rest)"

definition rawQueryParam :: "jsstring \<Rightarrow> jsstring \<Rightarrow> jsstring option" where
  "rawQueryParam key url =
     (case find (\<lambda>kv. prefix (key @ [0x3D]) kv) (split_on 0x26 (queryString url)) of
        None \<Rightarrow> None
      | Some kv \<Rightarrow> Some (drop (length key + 1) kv))"

text \<open>The two deep links up to their query.\<close>

definition cursorBase :: jsstring where
  "cursorBase = js ''https://cursor.com/en/install-mcp''"

definition vscodeBase :: jsstring where
  "vscodeBase = js ''https://insiders.vscode.dev/redirect/mcp/install''"

text \<open>
  The card has a \<open>streamable-http\<close> transport whose endpoint resolves to the queried URL.
\<close>

definition resolvesTo :: "platform \<Rightarrow> jsstring \<Rightarrow> json \<Rightarrow> bool" where
  "resolvesTo P mcpUrl crd =
     (case getProp crd (js ''transport'') of
        Inr (Some t) \<Rightarrow>
          truthy (Some t) \<and>
          getProp t (js ''type'') = Inr (Some (JString (js ''streamable-http''))) \<and>
          (case getProp t (js ''endpoint'') of
             Inr e \<Rightarrow> newURL_href P e mcpUrl = Inr mcpUrl
           | Inl x \<Rightarrow> False)
      | _ \<Rightarrow> False)"

text \<open>The card has a transport whose type is \<open>stdio\<close>.\<close>

definition isStdio :: "json \<Rightarrow> bool" where
  "isStdio crd =
     (case getProp crd (js ''transport'') of
        Inr (Some t) \<Rightarrow> getProp t (js ''type'') = Inr (Some (JString (js ''stdio'')))
      | _ \<Rightarrow> False)"

text \<open>
  The card is not \<open>null\<close> and has no URL-based transport: it has no transport, a falsy
  one, or one whose type is neither \<open>streamable-http\<close> nor \<open>sse\<close>.
\<close>

definition notUrlBased :: "json \<Rightarrow> bool" where
  "notUrlBased crd =
     (case getProp crd (js ''transport'') of
        Inl e \<Rightarrow> False
      | Inr None \<Rightarrow> True
      | Inr (Some t) \<Rightarrow>
          \<not> truthy (Some t) \<or>
          (case getProp t (js ''type'') of
             Inl e \<Rightarrow> False
           | Inr ty \<Rightarrow>
               ty \<noteq> Some (JString (js ''streamable-http'')) \<and> ty \<noteq> Some (JString (js ''sse''))))"

text \<open>
  The endpoint of a card whose transport is an object of type \<open>streamable-http\<close> with a
  string \<open>endpoint\<close>, as the declared type \<open>StreamableHttpTransport\<close> has it.
\<close>

definition httpEndpoint :: "json \<Rightarrow> jsstring option" where
  "httpEndpoint crd =
     (case crd of
        JObject kvs \<Rightarrow>
          (case map_of kvs (js ''transport'') of
             Some (JObject t) \<Rightarrow>
               if map_of t (js ''type'') = Some (JString (js ''streamable-http''))
               then (case map_of t (js ''endpoint'') of
                       Some (JString s) \<Rightarrow> Some s
                     | _ \<Rightarrow> None)
               else None
           | _ \<Rightarrow> None)
      | _ \<Rightarrow> None)"

text \<open>
  The card's transport is an object of type \<open>sse\<close> without an \<open>endpoint\<close>, as the declared
  type \<open>SseTransport\<close> has it.
\<close>

definition sseNoEndpoint :: "json \<Rightarrow> bool" where
  "sseNoEndpoint crd =
     (case crd of
        JObject kvs \<Rightarrow>
          (case map_of kvs (js ''transport'') of
             Some (JObject t) \<Rightarrow>
               map_of t (js ''type'') = Some (JString (js ''sse'')) \<and>
               map_of t (js ''endpoint'') = None
           | _ \<Rightarrow> False)
      | _ \<Rightarrow> False)"

text \<open>
  A platform for the examples: every \<open>fetch\<close> has the given outcome, and \<open>exampleHref\<close>
  holds the three values of \<open>new URL(x, "https://e.com/mcp").href\<close> the examples read
  (\<open>/mcp\<close> gives \<open>https://e.com/mcp\<close>, \<open>/m\<close> gives \<open>https://e.com/m\<close>, \<open>/other\<close> gives
  \<open>https://e.com/other\<close>). No example reads another value of it, or \<open>toStr\<close>.
\<close>

definition exampleUrl :: jsstring where
  "exampleUrl = js ''https://e.com/mcp''"

definition exampleHref :: "json option \<Rightarrow> jsstring \<Rightarrow> error + jsstring" where
  "exampleHref v base =
     (if base = exampleUrl \<and> v = Some (JString (js ''/mcp'')) then Inr (js ''https://e.com/mcp'')
      else if base = exampleUrl \<and> v = Some (JString (js ''/m'')) then Inr (js ''https://e.com/m'')
      else if base = exampleUrl \<and> v = Some (JString (js ''/other''))
        then Inr (js ''https://e.com/other'')
      else Inl TypeError)"

definition examplePlatform :: "error + response \<Rightarrow> platform" where
  "examplePlatform outcome =
     \<lparr> fetch = (\<lambda>u. outcome), newURL_href = exampleHref, toStr = (\<lambda>v. Inl TypeError) \<rparr>"

text \<open>A response with status ok whose body is the JSON value \<open>data\<close>.\<close>

definition okResponse :: "json \<Rightarrow> error + response" where
  "okResponse data = Inr \<lparr> ok = True, json_result = Inr data \<rparr>"

text \<open>Documents that declare only a transport.\<close>

definition httpCard :: "jsstring \<Rightarrow> json" where
  "httpCard endpoint =
     JObject [(js ''transport'',
       JObject [(js ''type'', JString (js ''streamable-http'')), (js ''endpoint'', JString endpoint)])]"

definition sseCard :: "jsstring \<Rightarrow> json" where
  "sseCard url =
     JObject [(js ''transport'', JObject [(js ''type'', JString (js ''sse'')), (js ''url'', JString url)])]"

definition stdioCard :: json where
  "stdioCard = JObject [(js ''transport'', JObject [(js ''type'', JString (js ''stdio''))])]"

text \<open>Metadata with the title \<open>t\<close>, and metadata without a title.\<close>

definition titledMetadata :: "jsstring \<Rightarrow> json" where
  "titledMetadata t = JObject [(js ''serverInfo'', JObject [(js ''title'', JString t)])]"

definition untitledMetadata :: json where
  "untitledMetadata =
     JObject [(js ''serverInfo'', JObject [(js ''name'', JString (js ''com.example/server''))]),
              (js ''description'', JString (js ''An example server''))]"

section \<open>Notions used in the proofs\<close>

text \<open>The six-bit groups of a list of octets, without padding.\<close>

fun sextets :: "nat list \<Rightarrow> nat list" where
  "sextets [] = []"
| "sextets [a] = [a div 4, (a mod 4) * 16]"
| "sextets [a, b] = [a div 4, (a mod 4) * 16 + b div 16, (b mod 16) * 4]"
| "sextets (a # b # c # r) =
     [a div 4, (a mod 4) * 16 + b div 16, (b mod 16) * 4 + c div 64, c mod 64] @ sextets r"

text \<open>Every code unit of the string is below 0x80.\<close>

definition ascii :: "jsstring \<Rightarrow> bool" where
  "ascii s = list_all (\<lambda>c. c < 0x80) s"

text \<open>The characters \<open>QuoteJSONString\<close> writes as a two-character escape.\<close>

definition shortEscaped :: "16 word \<Rightarrow> bool" where
  "shortEscaped c = (c = 0x08 \<or> c = 0x09 \<or> c = 0x0A \<or> c = 0x0C \<or> c = 0x0D \<or> c = 0x22 \<or> c = 0x5C)"

text \<open>The JSON texts of the two deep links up to the escaped url.\<close>

definition cursorJsonPrefix :: jsstring where
  "cursorJsonPrefix = [0x7B, 0x22] @ js ''url'' @ [0x22, 0x3A, 0x22]"

definition vscodeJsonPrefix :: jsstring where
  "vscodeJsonPrefix =
     [0x7B, 0x22] @ js ''type'' @ [0x22, 0x3A, 0x22] @ js ''http'' @ [0x22, 0x2C, 0x22] @
     js ''url'' @ [0x22, 0x3A, 0x22]"

text \<open>A bound on the nested calls the reader makes on the text of a value.\<close>

fun fuel :: "jsonv \<Rightarrow> nat" where
  "fuel (JStr s) = 1"
| "fuel (JObj kvs) = 1 + sum_list (map (\<lambda>(k, v). 1 + fuel v) kvs)"

text \<open>One \<open>key:value\<close> member as \<open>JSON.stringify\<close> writes it, without and with indentation.\<close>

definition member_text :: "jsstring \<times> jsonv \<Rightarrow> jsstring" where
  "member_text kv = quoteJSON (fst kv) @ [0x3A] @ JSON_stringify (snd kv)"

definition member_gap :: "jsstring \<Rightarrow> jsstring \<times> jsonv \<Rightarrow> jsstring" where
  "member_gap ind kv = quoteJSON (fst kv) @ [0x3A, 0x20] @ JSON_stringify_gap ind (snd kv)"

text \<open>The reader inverts \<open>JSON.stringify\<close> on the value of a member.\<close>

definition parses :: "jsstring \<times> jsonv \<Rightarrow> bool" where
  "parses kv = (\<forall>n rest. fuel (snd kv) \<le> n \<longrightarrow>
     parseValue n (JSON_stringify (snd kv) @ rest) = Some (snd kv, rest))"

definition parses_gap :: "jsstring \<Rightarrow> jsstring \<times> jsonv \<Rightarrow> bool" where
  "parses_gap i kv = (\<forall>n w rest. fuel (snd kv) \<le> n \<and> list_all jsonWs w \<longrightarrow>
     parseValue n (w @ JSON_stringify_gap i (snd kv) @ rest) = Some (snd kv, rest))"

section \<open>Base64: decoding inverts encoding\<close>

lemma unat16: "k < 65536 \<Longrightarrow> unat (of_nat k :: 16 word) = k"
  by (simp add: unat_of_nat)

lemma b64char_unat:
  "n < 64 \<Longrightarrow> unat (b64char n) =
     (if n < 26 then 0x41 + n else if n < 52 then 0x61 + (n - 26)
      else if n < 62 then 0x30 + (n - 52) else if n = 62 then 0x2B else 0x2F)"
  unfolding b64char_def
  by (simp add: unat16 del: of_nat_add of_nat_diff)

lemma b64val_b64char: "n < 64 \<Longrightarrow> b64val (b64char n) = Some n"
  unfolding b64val_def
  by (auto simp: word_le_nat_alt word_eq_iff_unsigned[where ?'a=nat] b64char_unat)

lemma b64char_not_ws: "n < 64 \<Longrightarrow> \<not> asciiWhitespace (b64char n)"
  unfolding asciiWhitespace_def
  by (auto simp: word_eq_iff_unsigned[where ?'a=nat] b64char_unat)

lemma b64char_not_pad: "n < 64 \<Longrightarrow> b64char n \<noteq> 0x3D"
  by (auto simp: word_eq_iff_unsigned[where ?'a=nat] b64char_unat)

lemma sextets_bound: "list_all (\<lambda>b. b < 256) bs \<Longrightarrow> list_all (\<lambda>v. v < 64) (sextets bs)"
  by (induction bs rule: sextets.induct) auto

lemma b64dec_sextets: "list_all (\<lambda>b. b < 256) bs \<Longrightarrow> b64dec (sextets bs) = bs"
  by (induction bs rule: sextets.induct) auto

lemma length_sextets: "length (sextets bs) mod 4 \<noteq> Suc 0"
  by (induction bs rule: sextets.induct) auto

lemma length_b64enc: "length (b64enc bs) mod 4 = 0"
  by (induction bs rule: b64enc.induct) auto

lemma sextet_bound1: "a < 256 \<Longrightarrow> a div 4 < (64::nat)"
  by simp

lemma sextet_bound2: "b < 256 \<Longrightarrow> a mod 4 * 16 + b div 16 < (64::nat)"
proof -
  assume "b < 256"
  then have "b div 16 < 16" by simp
  moreover have "a mod 4 < 4" by simp
  ultimately show ?thesis by linarith
qed

lemma sextet_bound3: "c < 256 \<Longrightarrow> b mod 16 * 4 + c div 64 < (64::nat)"
proof -
  assume "c < 256"
  then have "c div 64 < 4" by simp
  moreover have "b mod 16 < 16" by simp
  ultimately show ?thesis by linarith
qed

lemmas sextet_bounds = sextet_bound1 sextet_bound2 sextet_bound3

lemma pad_not_ws: "\<not> asciiWhitespace 0x3D"
  by (simp add: asciiWhitespace_def)

lemma b64enc_all_not_ws:
  "list_all (\<lambda>b. b < 256) bs \<Longrightarrow> list_all (\<lambda>c. \<not> asciiWhitespace c) (b64enc bs)"
  by (induction bs rule: b64enc.induct) (simp_all add: b64char_not_ws pad_not_ws sextet_bounds)

lemma b64enc_not_ws:
  "list_all (\<lambda>b. b < 256) bs \<Longrightarrow> filter (\<lambda>c. \<not> asciiWhitespace c) (b64enc bs) = b64enc bs"
  using b64enc_all_not_ws [of bs] by (simp add: list_all_iff)

lemma stripPad_append: "2 \<le> length x \<Longrightarrow> stripPad (g @ x) = g @ stripPad x"
proof -
  assume a: "2 \<le> length x"
  then have x: "x \<noteq> []" by auto
  from a have bx: "butlast x \<noteq> []" by (cases x rule: rev_cases) auto
  show ?thesis
    using x bx by (simp add: stripPad_def Let_def butlast_append)
qed

lemma length_b64enc_ge: "bs \<noteq> [] \<Longrightarrow> 4 \<le> length (b64enc bs)"
  by (induction bs rule: b64enc.induct) auto

lemma stripPad_b64enc:
  "list_all (\<lambda>b. b < 256) bs \<Longrightarrow> stripPad (b64enc bs) = map b64char (sextets bs)"
proof (induction bs rule: b64enc.induct)
  case 1
  then show ?case by (simp add: stripPad_def)
next
  case (2 a)
  then show ?case by (simp add: stripPad_def)
next
  case (3 a b)
  then show ?case by (simp add: stripPad_def b64char_not_pad sextet_bounds)
next
  case (4 a b c r)
  show ?case
  proof (cases "r = []")
    case True
    with 4 show ?thesis by (simp add: stripPad_def b64char_not_pad sextet_bounds)
  next
    case False
    then have "2 \<le> length (b64enc r)" using length_b64enc_ge [of r] by simp
    from stripPad_append [OF this]
    have "stripPad ([b64char (a div 4), b64char ((a mod 4) * 16 + b div 16),
             b64char ((b mod 16) * 4 + c div 64), b64char (c mod 64)] @ b64enc r) =
          [b64char (a div 4), b64char ((a mod 4) * 16 + b div 16),
             b64char ((b mod 16) * 4 + c div 64), b64char (c mod 64)] @ stripPad (b64enc r)" .
    with 4 show ?thesis by simp
  qed
qed

lemma those_b64val:
  "list_all (\<lambda>v. v < 64) vs \<Longrightarrow> those (map (b64val \<circ> b64char) vs) = Some vs"
  by (induction vs) (auto simp: b64val_b64char)

lemma atob_b64enc:
  assumes "list_all (\<lambda>b. b < 256) bs"
  shows "atob (b64enc bs) = Inr (map of_nat bs)"
proof -
  have vs: "list_all (\<lambda>v. v < 64) (sextets bs)" by (rule sextets_bound [OF assms])
  show ?thesis
    unfolding atob_def
    by (simp add: b64enc_not_ws [OF assms] length_b64enc stripPad_b64enc [OF assms]
        length_sextets those_b64val [OF vs] b64dec_sextets [OF assms] Let_def)
qed

lemma atob_btoa: "btoa s = Inr e \<Longrightarrow> atob e = Inr s"
proof -
  assume a: "btoa s = Inr e"
  then have l: "list_all (\<lambda>c. c \<le> 0xFF) s" and e: "e = b64enc (map unat s)"
    by (auto simp: btoa_def split: if_splits)
  have "list_all (\<lambda>b. b < 256) (map unat s)"
    using l by (induction s) (auto simp: word_le_nat_alt)
  from atob_b64enc [OF this] show ?thesis
    by (simp add: e comp_def)
qed

section \<open>Percent-encoding: decoding inverts encoding\<close>

lemma hexUpper_unat:
  "n < 16 \<Longrightarrow> unat (hexUpper n) = (if n < 10 then 0x30 + n else 0x37 + n)"
  unfolding hexUpper_def by (simp add: unat16 del: of_nat_add)

lemma hexVal_hexUpper: "n < 16 \<Longrightarrow> hexVal (hexUpper n) = Some n"
  unfolding hexVal_def
  by (auto simp: word_le_nat_alt hexUpper_unat)

lemma takeOctet_pctByte: "b < 256 \<Longrightarrow> takeOctet (pctByte b @ rest) = Some (b, rest)"
proof -
  assume "b < 256"
  then have "b div 16 < 16" "b mod 16 < 16" by simp_all
  then show ?thesis by (simp add: pctByte_def hexVal_hexUpper)
qed

lemma takeOctets_pctBytes:
  "list_all (\<lambda>b. b < 256) bs \<Longrightarrow>
     takeOctets (length bs) (concat (map pctByte bs) @ rest) = Some (bs, rest)"
  by (induction bs) (auto simp: takeOctet_pctByte)

lemma decode_ascii_escape:
  assumes "takeOctet (0x25 # cs) = Some (b, r1)" "leadingOnes b = 0"
  shows "decodeURIComponent (0x25 # cs) = bindE (decodeURIComponent r1) (\<lambda>r. Inr (of_nat b # r))"
  using assms by simp

lemma decode_multi_escape:
  assumes "takeOctet (0x25 # cs) = Some (b, r1)" "leadingOnes b = Suc n" "0 < n" "n < 4"
    "takeOctets n r1 = Some (bs, r2)" "utf8Decode (b # bs) = Some v"
  shows "decodeURIComponent (0x25 # cs) = bindE (decodeURIComponent r2) (\<lambda>r. Inr (utf16 v @ r))"
  using assms by simp

lemma pctByte_Cons: "pctByte b @ rest = 0x25 # hexUpper (b div 16) # hexUpper (b mod 16) # rest"
  by (simp add: pctByte_def)

lemma radix64: "k * (q mod 64) + (k * 64) * (q div 64) = k * (q::nat)"
proof -
  have "k * (q mod 64) + (k * 64) * (q div 64) = k * (64 * (q div 64) + q mod 64)"
    by (simp only: distrib_left mult.assoc add.commute)
  also have "\<dots> = k * q" by (simp only: mult_div_mod_eq)
  finally show ?thesis .
qed
lemma split3: "(v div 4096) * 4096 + ((v div 64) mod 64) * 64 + v mod 64 = (v::nat)"
proof -
  have a: "v div 4096 = (v div 64) div 64" by (simp add: div_mult2_eq [symmetric])
  have "64 * ((v div 64) mod 64) + (64 * 64) * ((v div 64) div 64) = 64 * (v div 64)"
    by (rule radix64)
  then have "(v div 4096) * 4096 + ((v div 64) mod 64) * 64 = 64 * (v div 64)"
    unfolding a by simp
  then show ?thesis by simp
qed
lemma split4: "(v div 262144) * 262144 + ((v div 4096) mod 64) * 4096 + ((v div 64) mod 64) * 64 + v mod 64 = (v::nat)"
proof -
  have a: "v div 262144 = (v div 4096) div 64" by (simp add: div_mult2_eq [symmetric])
  have "4096 * ((v div 4096) mod 64) + (4096 * 64) * ((v div 4096) div 64) = 4096 * (v div 4096)"
    by (rule radix64)
  then have "(v div 262144) * 262144 + ((v div 4096) mod 64) * 4096 = (v div 4096) * 4096"
    unfolding a by simp
  then show ?thesis using split3 [of v] by simp
qed

lemma decode_pctEncode:
  assumes v: "v < 0x110000" "\<not> (0xD800 \<le> v \<and> v < 0xE000)"
  shows "decodeURIComponent (pctEncode v @ rest) =
           bindE (decodeURIComponent rest) (\<lambda>r. Inr (utf16 v @ r))"
proof -
  consider (a) "v < 0x80" | (b) "0x80 \<le> v" "v < 0x800" | (c) "0x800 \<le> v" "v < 0x10000"
    | (d) "0x10000 \<le> v"
    by linarith
  then show ?thesis
  proof cases
    case a
    then have e: "pctEncode v @ rest = 0x25 # hexUpper (v div 16) # hexUpper (v mod 16) # rest"
      by (simp add: pctEncode_def utf8_def pctByte_def)
    have t: "takeOctet (0x25 # hexUpper (v div 16) # hexUpper (v mod 16) # rest) = Some (v, rest)"
      using takeOctet_pctByte [of v rest] a by (simp add: pctByte_def)
    have l: "leadingOnes v = 0" using a by (simp add: leadingOnes_def)
    show ?thesis
      unfolding e using decode_ascii_escape [OF t l] a by (simp add: utf16_def)
  next
    case b
    define b0 where "b0 = 0xC0 + v div 64"
    define b1 where "b1 = 0x80 + v mod 64"
    have r: "b0 < 256" "b1 < 256" "0xC0 \<le> b0" "b0 < 0xE0" "isCont b1"
      using b by (auto simp: b0_def b1_def isCont_def)
    have e: "pctEncode v @ rest =
        0x25 # hexUpper (b0 div 16) # hexUpper (b0 mod 16) # (concat (map pctByte [b1]) @ rest)"
      using b by (simp add: pctEncode_def utf8_def pctByte_def b0_def b1_def)
    have t: "takeOctet (0x25 # hexUpper (b0 div 16) # hexUpper (b0 mod 16) #
               (concat (map pctByte [b1]) @ rest)) = Some (b0, concat (map pctByte [b1]) @ rest)"
      using takeOctet_pctByte [of b0] r by (simp add: pctByte_def)
    have l: "leadingOnes b0 = Suc (length [b1])" using r by (simp add: leadingOnes_def)
    have ts: "takeOctets (length [b1]) (concat (map pctByte [b1]) @ rest) = Some ([b1], rest)"
      using takeOctets_pctBytes [of "[b1]" rest] r by simp
    have u: "utf8Decode (b0 # [b1]) = Some v"
      using b r by (simp add: b0_def b1_def)
    show ?thesis
      unfolding e using decode_multi_escape [OF t l _ _ ts u] by simp
  next
    case c
    define b0 where "b0 = 0xE0 + v div 4096"
    define b1 where "b1 = 0x80 + (v div 64) mod 64"
    define b2 where "b2 = 0x80 + v mod 64"
    have r: "b0 < 256" "b1 < 256" "b2 < 256" "0xE0 \<le> b0" "b0 < 0xF0" "isCont b1" "isCont b2"
      using c by (auto simp: b0_def b1_def b2_def isCont_def)
    have e: "pctEncode v @ rest =
        0x25 # hexUpper (b0 div 16) # hexUpper (b0 mod 16) # (concat (map pctByte [b1, b2]) @ rest)"
      using c by (simp add: pctEncode_def utf8_def pctByte_def b0_def b1_def b2_def)
    have t: "takeOctet (0x25 # hexUpper (b0 div 16) # hexUpper (b0 mod 16) #
               (concat (map pctByte [b1, b2]) @ rest)) = Some (b0, concat (map pctByte [b1, b2]) @ rest)"
      using takeOctet_pctByte [of b0] r by (simp add: pctByte_def)
    have l: "leadingOnes b0 = Suc (length [b1, b2])" using r by (simp add: leadingOnes_def)
    have ts: "takeOctets (length [b1, b2]) (concat (map pctByte [b1, b2]) @ rest) = Some ([b1, b2], rest)"
      using takeOctets_pctBytes [of "[b1, b2]" rest] r by simp
    have vv: "(b0 - 0xE0) * 4096 + (b1 - 0x80) * 64 + (b2 - 0x80) = v"
      using c split3 [of v] by (simp add: b0_def b1_def b2_def)
    have u: "utf8Decode (b0 # [b1, b2]) = Some v"
      using c r v vv by (simp add: Let_def)
    show ?thesis
      unfolding e using decode_multi_escape [OF t l _ _ ts u] by simp
  next
    case d
    define b0 where "b0 = 0xF0 + v div 262144"
    define b1 where "b1 = 0x80 + (v div 4096) mod 64"
    define b2 where "b2 = 0x80 + (v div 64) mod 64"
    define b3 where "b3 = 0x80 + v mod 64"
    have r: "b0 < 256" "b1 < 256" "b2 < 256" "b3 < 256" "0xF0 \<le> b0" "b0 < 0xF8"
      "isCont b1" "isCont b2" "isCont b3"
      using d v by (auto simp: b0_def b1_def b2_def b3_def isCont_def)
    have e: "pctEncode v @ rest =
        0x25 # hexUpper (b0 div 16) # hexUpper (b0 mod 16) # (concat (map pctByte [b1, b2, b3]) @ rest)"
      using d by (simp add: pctEncode_def utf8_def pctByte_def b0_def b1_def b2_def b3_def)
    have t: "takeOctet (0x25 # hexUpper (b0 div 16) # hexUpper (b0 mod 16) #
               (concat (map pctByte [b1, b2, b3]) @ rest)) =
             Some (b0, concat (map pctByte [b1, b2, b3]) @ rest)"
      using takeOctet_pctByte [of b0] r by (simp add: pctByte_def)
    have l: "leadingOnes b0 = Suc (length [b1, b2, b3])" using r by (simp add: leadingOnes_def)
    have ts: "takeOctets (length [b1, b2, b3]) (concat (map pctByte [b1, b2, b3]) @ rest) = Some ([b1, b2, b3], rest)"
      using takeOctets_pctBytes [of "[b1, b2, b3]" rest] r by simp
    have vv: "(b0 - 0xF0) * 262144 + (b1 - 0x80) * 4096 + (b2 - 0x80) * 64 + (b3 - 0x80) = v"
      using d split4 [of v] by (simp add: b0_def b1_def b2_def b3_def)
    have u: "utf8Decode (b0 # [b1, b2, b3]) = Some v"
      using d r v vv by (simp add: Let_def)
    show ?thesis
      unfolding e using decode_multi_escape [OF t l _ _ ts u] by simp
  qed
qed

lemma uriUnescaped_not_pct: "uriUnescaped c \<Longrightarrow> c \<noteq> 0x25"
  by (auto simp: uriUnescaped_def)

lemma unat_lt16: "unat (c :: 16 word) < 65536"
  using unsigned_less [of c] by simp

lemma utf16_bmp: "utf16 (unat (c :: 16 word)) = [c]"
  using unat_lt16 [of c] by (simp add: utf16_def)

lemma pairCodePoint_range:
  assumes "isHighSurrogate c" "isLowSurrogate d"
  shows "0x10000 \<le> pairCodePoint c d" "pairCodePoint c d < 0x110000"
  using assms unat_lt16 [of c] unat_lt16 [of d]
  by (auto simp: pairCodePoint_def isHighSurrogate_def isLowSurrogate_def word_le_nat_alt)

lemma utf16_pair:
  assumes "isHighSurrogate c" "isLowSurrogate d"
  shows "utf16 (pairCodePoint c d) = [c, d]"
proof -
  define h where "h = unat c - 0xD800"
  define l where "l = unat d - 0xDC00"
  have hl: "unat c = 0xD800 + h" "unat d = 0xDC00 + l" "l < 0x400"
    using assms unat_lt16 [of d]
    by (auto simp: h_def l_def isHighSurrogate_def isLowSurrogate_def word_le_nat_alt)
  have p: "pairCodePoint c d = h * 0x400 + l + 0x10000"
    by (simp add: pairCodePoint_def h_def l_def)
  have "(h * 0x400 + l) div 0x400 = h" "(h * 0x400 + l) mod 0x400 = l"
    using hl(3) by simp_all
  then have "utf16 (pairCodePoint c d) = [of_nat (unat c), of_nat (unat d)]"
    unfolding p utf16_def using hl by simp
  then show ?thesis by simp
qed

lemma decode_encode:
  "encodeURIComponent s = Inr e \<Longrightarrow> decodeURIComponent e = Inr s"
proof (induction s arbitrary: e rule: encodeURIComponent.induct)
  case 1
  then show ?case by simp
next
  case (2 c cs)
  show ?case
  proof (cases "uriUnescaped c")
    case True
    with 2(4) obtain r where r: "encodeURIComponent cs = Inr r" "e = c # r"
      by (auto simp: bindE_def split: sum.splits)
    from 2(1) [OF True r(1)] have "decodeURIComponent r = Inr cs" .
    then show ?thesis using r uriUnescaped_not_pct [OF True] by (simp add: bindE_def)
  next
    case False
    note nu = this
    show ?thesis
    proof (cases "isLowSurrogate c")
      case True
      with nu 2(4) show ?thesis by simp
    next
      case False
      note nl = this
      show ?thesis
      proof (cases "isHighSurrogate c")
        case False
        with nu nl 2(4) obtain r where r: "encodeURIComponent cs = Inr r"
          "e = pctEncode (unat c) @ r"
          by (auto simp: bindE_def split: sum.splits)
        from 2(2) [OF nu nl False r(1)] have d: "decodeURIComponent r = Inr cs" .
        have v: "unat c < 0x110000" "\<not> (0xD800 \<le> unat c \<and> unat c < 0xE000)"
          using unat_lt16 [of c] nl False
          by (auto simp: isHighSurrogate_def isLowSurrogate_def word_le_nat_alt)
        show ?thesis
          unfolding r(2) decode_pctEncode [OF v] using d by (simp add: bindE_def utf16_bmp)
      next
        case True
        with nu nl 2(4) obtain d ds r where r: "cs = d # ds" "isLowSurrogate d"
          "encodeURIComponent ds = Inr r" "e = pctEncode (pairCodePoint c d) @ r"
          by (auto simp: bindE_def split: sum.splits list.splits if_splits)
        have "\<not> \<not> isHighSurrogate c" using True by simp
        from 2(3) [OF nu nl this r(1) r(2) r(3)] have dd: "decodeURIComponent r = Inr ds" .
        have v: "pairCodePoint c d < 0x110000"
          "\<not> (0xD800 \<le> pairCodePoint c d \<and> pairCodePoint c d < 0xE000)"
          using pairCodePoint_range [OF True r(2)] by auto
        show ?thesis
          unfolding r(4) decode_pctEncode [OF v] using dd r(1)
          by (simp add: bindE_def utf16_pair [OF True r(2)])
      qed
    qed
  qed
qed

section \<open>When the catalog builder returns\<close>

lemma bindE_Inr_iff: "bindE m f = Inr y \<longleftrightarrow> (\<exists>x. m = Inr x \<and> f x = Inr y)"
  by (cases m) (auto simp: bindE_def)

lemma bindE_Inr [simp]: "bindE (Inr x) f = f x"
  by (simp add: bindE_def)

lemma bindE_Inl [simp]: "bindE (Inl e) f = Inl e"
  by (simp add: bindE_def)

lemma uriUnescaped_not_surrogate:
  "uriUnescaped c \<Longrightarrow> \<not> isLowSurrogate c \<and> \<not> isHighSurrogate c"
  by (auto simp: uriUnescaped_def isLowSurrogate_def isHighSurrogate_def word_le_nat_alt)

lemma encodeURIComponent_returns_iff:
  "(\<exists>r. encodeURIComponent s = Inr r) \<longleftrightarrow> isWellFormed s"
proof (induction s rule: isWellFormed.induct)
  case 1
  then show ?case by simp
next
  case (2 c cs)
  show ?case
  proof (cases "isLowSurrogate c")
    case True
    then show ?thesis using uriUnescaped_not_surrogate [of c] by auto
  next
    case nl: False
    show ?thesis
    proof (cases "isHighSurrogate c")
      case True
      then have nu: "\<not> uriUnescaped c" using uriUnescaped_not_surrogate [of c] by auto
      show ?thesis
      proof (cases cs)
        case Nil
        then show ?thesis using nl True nu by simp
      next
        case (Cons d ds)
        show ?thesis
        proof (cases "isLowSurrogate d")
          case dl: True
          from 2(1) [OF nl True Cons] have "(\<exists>r. encodeURIComponent ds = Inr r) = isWellFormed ds" .
          then show ?thesis using nl True nu Cons dl by (auto simp: bindE_Inr_iff)
        next
          case False
          then show ?thesis using nl True nu Cons by simp
        qed
      qed
    next
      case False
      from 2(2) [OF nl False] have "(\<exists>r. encodeURIComponent cs = Inr r) = isWellFormed cs" .
      then show ?thesis using nl False by (auto simp: bindE_Inr_iff)
    qed
  qed
qed

lemma encodeURIComponent_error: "encodeURIComponent s = Inl e \<Longrightarrow> e = URIError"
proof (induction s arbitrary: e rule: encodeURIComponent.induct)
  case 1
  then show ?case by simp
next
  case (2 c cs)
  then show ?case
    by (auto simp: bindE_def split: if_splits sum.splits list.splits)
qed

lemma gen_clients:
  "generateMCPConfig mcpUrl serverName = Inr configs \<Longrightarrow>
     length configs = 8 \<and> map client configs = catalogClients"
  unfolding generateMCPConfig_def bindE_Inr_iff catalogClients_def
  by auto

lemma latin1_simps [simp]:
  "latin1 [] = True"
  "latin1 (c # cs) = (c \<le> 0xFF \<and> latin1 cs)"
  "latin1 (a @ b) = (latin1 a \<and> latin1 b)"
  by (simp_all add: latin1_def)

lemma btoa_returns_iff: "(\<exists>r. btoa s = Inr r) \<longleftrightarrow> latin1 s"
  by (simp add: btoa_def latin1_def)

lemma btoa_error: "btoa s = Inl e \<Longrightarrow> e = InvalidCharacterError"
  by (auto simp: btoa_def split: if_splits)

lemma hexLower_unat:
  "n < 16 \<Longrightarrow> unat (hexLower n) = (if n < 10 then 0x30 + n else 0x57 + n)"
  unfolding hexLower_def by (simp add: unat16 del: of_nat_add)

lemma hexLower_ascii: "n < 16 \<Longrightarrow> hexLower n < 0x80"
  by (simp add: word_less_nat_alt hexLower_unat)

lemma ascii_simps [simp]:
  "ascii [] = True"
  "ascii (c # cs) = (c < 0x80 \<and> ascii cs)"
  by (simp_all add: ascii_def)

lemma unicodeEscape_ascii: "ascii (unicodeEscape c)"
proof -
  have "unat c div 4096 < 16" using unat_lt16 [of c] by simp
  then show ?thesis
    by (simp add: unicodeEscape_def hexLower_ascii)
qed

lemma ascii_latin1: "ascii s \<Longrightarrow> latin1 s"
  by (induction s) (auto simp: word_le_nat_alt word_less_nat_alt)

lemma ascii_not_surrogate: "c < 0x80 \<Longrightarrow> \<not> isLowSurrogate c \<and> \<not> isHighSurrogate c"
  by (auto simp: isLowSurrogate_def isHighSurrogate_def word_le_nat_alt word_less_nat_alt)

lemma isWellFormed_ascii_append: "ascii a \<Longrightarrow> isWellFormed (a @ b) = isWellFormed b"
  by (induction a) (auto simp: ascii_not_surrogate)

lemma latin1_not_surrogate: "c \<le> 0xFF \<Longrightarrow> \<not> isLowSurrogate c \<and> \<not> isHighSurrogate c"
  by (auto simp: isLowSurrogate_def isHighSurrogate_def word_le_nat_alt)

lemma latin1_jsonEscape: "latin1 s \<Longrightarrow> latin1 (jsonEscape s)"
proof (induction s)
  case Nil
  then show ?case by simp
next
  case (Cons c cs)
  then have c: "c \<le> 0xFF" and cs: "latin1 (jsonEscape cs)" by simp_all
  have u: "latin1 (unicodeEscape c)" by (rule ascii_latin1 [OF unicodeEscape_ascii])
  show ?case
    using c cs u latin1_not_surrogate [OF c] by simp
qed

lemma jsonEscape_short:
  "shortEscaped c \<Longrightarrow> \<exists>x. x < 0x80 \<and> jsonEscape (c # cs) = 0x5C # x # jsonEscape cs"
  unfolding shortEscaped_def by (elim disjE) simp_all

lemma jsonEscape_control:
  "\<not> shortEscaped c \<Longrightarrow> c < 0x20 \<Longrightarrow> jsonEscape (c # cs) = unicodeEscape c @ jsonEscape cs"
  unfolding shortEscaped_def by simp

lemma surrogate_not_special:
  assumes "isHighSurrogate c \<or> isLowSurrogate c"
  shows "\<not> shortEscaped c" "\<not> c < 0x20"
  using assms
  by (auto simp: shortEscaped_def isHighSurrogate_def isLowSurrogate_def word_le_nat_alt
      word_less_nat_alt)

lemma jsonEscape_pair:
  "isHighSurrogate c \<Longrightarrow> isLowSurrogate d \<Longrightarrow> jsonEscape (c # d # ds) = c # d # jsonEscape ds"
  using surrogate_not_special [of c] by (simp add: shortEscaped_def)

lemma jsonEscape_lone_high:
  "isHighSurrogate c \<Longrightarrow> (case cs of [] \<Rightarrow> True | d # ds \<Rightarrow> \<not> isLowSurrogate d) \<Longrightarrow>
     jsonEscape (c # cs) = unicodeEscape c @ jsonEscape cs"
  using surrogate_not_special [of c] by (cases cs) (simp_all add: shortEscaped_def)

lemma jsonEscape_lone_low:
  "isLowSurrogate c \<Longrightarrow> jsonEscape (c # cs) = unicodeEscape c @ jsonEscape cs"
proof -
  assume l: "isLowSurrogate c"
  then have "\<not> isHighSurrogate c"
    by (auto simp: isHighSurrogate_def isLowSurrogate_def word_le_nat_alt)
  then show ?thesis using l surrogate_not_special [of c] by (simp add: shortEscaped_def)
qed

lemma jsonEscape_plain:
  "\<not> shortEscaped c \<Longrightarrow> \<not> c < 0x20 \<Longrightarrow> \<not> isHighSurrogate c \<Longrightarrow> \<not> isLowSurrogate c \<Longrightarrow>
     jsonEscape (c # cs) = c # jsonEscape cs"
  by (simp add: shortEscaped_def)

lemma isWellFormed_jsonEscape: "isWellFormed (jsonEscape s)"
proof (induction s rule: measure_induct_rule [where f = length])
  case (less s)
  show ?case
  proof (cases s)
    case Nil
    then show ?thesis by simp
  next
    case (Cons c cs)
    have ih: "isWellFormed (jsonEscape cs)" using less Cons by simp
    have u: "isWellFormed (unicodeEscape c @ jsonEscape cs)"
      using isWellFormed_ascii_append [OF unicodeEscape_ascii] ih by simp
    consider (short) "shortEscaped c" | (ctl) "\<not> shortEscaped c" "c < 0x20"
      | (hi) "isHighSurrogate c" | (lo) "isLowSurrogate c"
      | (plain) "\<not> shortEscaped c" "\<not> c < 0x20" "\<not> isHighSurrogate c" "\<not> isLowSurrogate c"
      by blast
    then show ?thesis
    proof cases
      case short
      from jsonEscape_short [OF short, of cs] obtain x where
        x: "x < 0x80" "jsonEscape (c # cs) = 0x5C # x # jsonEscape cs" by blast
      have "ascii [0x5C, x]" using x(1) by simp
      from isWellFormed_ascii_append [OF this, of "jsonEscape cs"] show ?thesis
        using ih x(2) Cons by simp
    next
      case ctl
      then show ?thesis using u Cons by (simp add: jsonEscape_control del: jsonEscape.simps)
    next
      case hi
      show ?thesis
      proof (cases "case cs of [] \<Rightarrow> True | d # ds \<Rightarrow> \<not> isLowSurrogate d")
        case True
        then show ?thesis using u Cons hi by (simp add: jsonEscape_lone_high del: jsonEscape.simps)
      next
        case False
        then obtain d ds where d: "cs = d # ds" "isLowSurrogate d"
          by (auto split: list.splits)
        have "isWellFormed (jsonEscape ds)" using less Cons d by simp
        then show ?thesis
          using hi d Cons surrogate_not_special [of c]
          by (auto simp: jsonEscape_pair isLowSurrogate_def isHighSurrogate_def word_le_nat_alt simp del: jsonEscape.simps)
      qed
    next
      case lo
      then show ?thesis using u Cons by (simp add: jsonEscape_lone_low del: jsonEscape.simps)
    next
      case plain
      then show ?thesis using ih Cons by (simp add: jsonEscape_plain del: jsonEscape.simps)
    qed
  qed
qed

lemma jsonEscape_url_key: "jsonEscape (js ''url'') = js ''url''"
  by (simp add: js_def isHighSurrogate_def isLowSurrogate_def)

lemma jsonEscape_type_key: "jsonEscape (js ''type'') = js ''type''"
  by (simp add: js_def isHighSurrogate_def isLowSurrogate_def)

lemma jsonEscape_http: "jsonEscape (js ''http'') = js ''http''"
  by (simp add: js_def isHighSurrogate_def isLowSurrogate_def)

lemma cursor_json_text:
  "JSON_stringify (JObj [(js ''url'', JStr u)]) = cursorJsonPrefix @ jsonEscape u @ [0x22, 0x7D]"
  by (simp add: quoteJSON_def jsonEscape_url_key cursorJsonPrefix_def)

lemma vscode_json_text:
  "JSON_stringify (JObj [(js ''type'', JStr (js ''http'')), (js ''url'', JStr u)]) =
     vscodeJsonPrefix @ jsonEscape u @ [0x22, 0x7D]"
  by (simp add: quoteJSON_def jsonEscape_url_key jsonEscape_type_key jsonEscape_http
      vscodeJsonPrefix_def)

lemma ascii_cursorJsonPrefix: "ascii cursorJsonPrefix"
  by (simp add: cursorJsonPrefix_def js_def ascii_def)

lemma ascii_vscodeJsonPrefix: "ascii vscodeJsonPrefix"
  by (simp add: vscodeJsonPrefix_def js_def ascii_def)

lemma isWellFormed_append: "isWellFormed a \<Longrightarrow> isWellFormed b \<Longrightarrow> isWellFormed (a @ b)"
  by (induction a rule: isWellFormed.induct) (auto split: list.splits if_splits)

lemma cursor_config_returns_iff:
  "(\<exists>r. btoa (JSON_stringify (JObj [(js ''url'', JStr u)])) = Inr r) \<longleftrightarrow> latin1 (jsonEscape u)"
  unfolding btoa_returns_iff cursor_json_text
  using ascii_latin1 [OF ascii_cursorJsonPrefix] by simp

lemma vscode_config_returns:
  "\<exists>r. encodeURIComponent
          (JSON_stringify (JObj [(js ''type'', JStr (js ''http'')), (js ''url'', JStr u)])) = Inr r"
proof -
  have "isWellFormed ([0x22, 0x7D] :: jsstring)"
    by (simp add: isLowSurrogate_def isHighSurrogate_def)
  then have "isWellFormed (jsonEscape u @ [0x22, 0x7D])"
    using isWellFormed_append [OF isWellFormed_jsonEscape] by blast
  then show ?thesis
    unfolding encodeURIComponent_returns_iff vscode_json_text
    using isWellFormed_ascii_append [OF ascii_vscodeJsonPrefix] by simp
qed

lemma generateMCPConfig_returns_iff:
  "(\<exists>configs. generateMCPConfig mcpUrl serverName = Inr configs) \<longleftrightarrow>
     isWellFormed serverName \<and> latin1 (jsonEscape mcpUrl)"
proof -
  have a: "(\<exists>configs. generateMCPConfig mcpUrl serverName = Inr configs) \<longleftrightarrow>
      (\<exists>r. encodeURIComponent serverName = Inr r) \<and>
      (\<exists>r. btoa (JSON_stringify (JObj [(js ''url'', JStr mcpUrl)])) = Inr r)"
    using vscode_config_returns [of mcpUrl]
    unfolding generateMCPConfig_def bindE_Inr_iff by auto
  show ?thesis
    unfolding a encodeURIComponent_returns_iff cursor_config_returns_iff ..
qed

lemma generateMCPConfig_error:
  "generateMCPConfig mcpUrl serverName = Inl e \<Longrightarrow> e = URIError \<or> e = InvalidCharacterError"
  unfolding generateMCPConfig_def
  by (auto simp: bindE_def simp del: JSON_stringify.simps split: sum.splits
      dest: encodeURIComponent_error btoa_error)

section \<open>Claims about the catalog builder\<close>

lemma isWellFormed_ascii: "ascii s \<Longrightarrow> isWellFormed s"
  using isWellFormed_ascii_append [of s "[]"] by simp

lemma ascii_js_url: "ascii (js ''https://e.com/mcp'')"
  by (simp add: js_def)

lemma ascii_js_name: "ascii (js ''My Server.v2'')"
  by (simp add: js_def)

text \<open>
  Where \<open>generateMCPConfig\<close> returns, the list has exactly eight descriptors whose
  \<open>client\<close> names are, in this order, Cursor, VS Code, Claude Desktop / Claude.ai,
  Claude Code, Windsurf, Cline, Gemini CLI and ChatGPT, whatever the inputs.
\<close>

lemma generateMCPConfig_clients_where_returned:
  "generateMCPConfig mcpUrl serverName = Inr configs \<Longrightarrow>
     length configs = 8 \<and> map client configs = catalogClients"
  by (rule gen_clients)

lemma generateMCPConfig_clients_example:
  "\<exists>cs. generateMCPConfig (js ''https://e.com/mcp'') (js ''My Server.v2'') = Inr cs \<and>
        length cs = 8 \<and> map client cs = catalogClients"
proof -
  have "isWellFormed (js ''My Server.v2'')" by (rule isWellFormed_ascii [OF ascii_js_name])
  moreover have "latin1 (jsonEscape (js ''https://e.com/mcp''))"
    by (rule latin1_jsonEscape [OF ascii_latin1 [OF ascii_js_url]])
  ultimately obtain cs where
    cs: "generateMCPConfig (js ''https://e.com/mcp'') (js ''My Server.v2'') = Inr cs"
    using generateMCPConfig_returns_iff by blast
  with generateMCPConfig_clients_where_returned [OF cs] show ?thesis by blast
qed

lemma check_mark_url_not_latin1:
  "\<not> latin1 (jsonEscape (js ''https://e.com/mcp?q='' @ [0x2713]))"
  by (simp add: js_def isHighSurrogate_def isLowSurrogate_def)

text \<open>
  Claim C1 says that for every pair of strings the builder returns the list of the eight
  clients. The code does not: for the url \<open>https://e.com/mcp?q=\<close> followed by U+2713 and
  the name \<open>X\<close> the Cursor entry's \<open>btoa\<close> raises \<open>InvalidCharacterError\<close> and no list is
  returned, although the VS Code entry, which passes the same kind of JSON text to
  \<open>encodeURIComponent\<close>, accepts this url.
\<close>

theorem generateMCPConfig_no_list_for_check_mark_url:
  "generateMCPConfig (js ''https://e.com/mcp?q='' @ [0x2713]) (js ''X'') = Inl InvalidCharacterError \<and>
   (\<exists>r. encodeURIComponent (JSON_stringify
      (JObj [(js ''type'', JStr (js ''http'')),
             (js ''url'', JStr (js ''https://e.com/mcp?q='' @ [0x2713]))])) = Inr r)"
proof -
  have e: "encodeURIComponent (js ''X'') = Inr (js ''X'')"
    by (simp add: js_def uriUnescaped_def)
  have "\<not> (\<exists>r. btoa (JSON_stringify (JObj [(js ''url'', JStr (js ''https://e.com/mcp?q='' @ [0x2713]))])) = Inr r)"
    unfolding cursor_config_returns_iff by (rule check_mark_url_not_latin1)
  then have "btoa (JSON_stringify (JObj [(js ''url'', JStr (js ''https://e.com/mcp?q='' @ [0x2713]))])) = Inl InvalidCharacterError"
    by (simp add: btoa_def split: if_splits)
  then have "generateMCPConfig (js ''https://e.com/mcp?q='' @ [0x2713]) (js ''X'') = Inl InvalidCharacterError"
    unfolding generateMCPConfig_def e by simp
  then show ?thesis
    using vscode_config_returns [of "js ''https://e.com/mcp?q='' @ [0x2713]"] by blast
qed

lemma replaceAll_from_single:
  "replaceAll_from [a] [b] s = map (\<lambda>c. if c = a then b else c) s"
  by (induction s) auto

lemma sanitizedName_map:
  "sanitizedName s = map (\<lambda>c. if c = 0x20 then 0x2D else if c = 0x2E then 0x5F else c) s"
  by (simp add: sanitizedName_def replaceAll_def js_def replaceAll_from_single)

lemma sanitizedName_example: "sanitizedName (js ''My Server.v2'') = js ''My-Server_v2''"
  by (simp add: sanitizedName_map js_def)

lemma gen_remoteCommands:
  "generateMCPConfig mcpUrl serverName = Inr configs \<Longrightarrow>
     map remoteCommand configs =
       [None, None, None,
        Some (js ''claude mcp add --transport http '' @ [0x22] @ sanitizedName serverName @
              [0x22] @ js '' '' @ mcpUrl),
        None, None, None, None]"
  unfolding generateMCPConfig_def bindE_Inr_iff
  by auto

lemma example_returns:
  "\<exists>cs. generateMCPConfig (js ''https://e.com/mcp'') (js ''My Server.v2'') = Inr cs"
  unfolding generateMCPConfig_returns_iff
  using isWellFormed_ascii [OF ascii_js_name] latin1_jsonEscape [OF ascii_latin1 [OF ascii_js_url]]
  by simp

text \<open>
  Claim C7. The name inside the generated command is the input name with every space
  replaced by a hyphen and every dot by an underscore; the command is the only one in the
  catalog and belongs to the fourth entry (Claude Code); for the name \<open>My Server.v2\<close> the
  token is \<open>My-Server_v2\<close>.
\<close>

theorem sanitized_command_name:
  "sanitizedName serverName =
     map (\<lambda>c. if c = 0x20 then 0x2D else if c = 0x2E then 0x5F else c) serverName \<and>
   (generateMCPConfig mcpUrl serverName = Inr configs \<longrightarrow>
      map remoteCommand configs =
        [None, None, None,
         Some (js ''claude mcp add --transport http '' @ [0x22] @ sanitizedName serverName @
               [0x22] @ js '' '' @ mcpUrl),
         None, None, None, None]) \<and>
   sanitizedName (js ''My Server.v2'') = js ''My-Server_v2''"
  using sanitizedName_map [of serverName] gen_remoteCommands [of mcpUrl serverName configs]
    sanitizedName_example
  by blast

text \<open>The command generated for \<open>My Server.v2\<close> at \<open>https://e.com/mcp\<close>.\<close>

theorem sanitized_command_name_witness:
  "(case generateMCPConfig (js ''https://e.com/mcp'') (js ''My Server.v2'') of
      Inl e \<Rightarrow> False
    | Inr cs \<Rightarrow>
        map remoteCommand cs =
          [None, None, None,
           Some (js ''claude mcp add --transport http '' @ [0x22] @ js ''My-Server_v2'' @
                 [0x22] @ js '' https://e.com/mcp''),
           None, None, None, None])"
proof -
  from example_returns obtain cs where
    cs: "generateMCPConfig (js ''https://e.com/mcp'') (js ''My Server.v2'') = Inr cs" by blast
  note t = sanitized_command_name [of "js ''My Server.v2''" "js ''https://e.com/mcp''" cs]
  from t cs have a: "map remoteCommand cs =
        [None, None, None,
         Some (js ''claude mcp add --transport http '' @ [0x22] @
               sanitizedName (js ''My Server.v2'') @ [0x22] @ js '' '' @ js ''https://e.com/mcp''),
         None, None, None, None]"
    by blast
  from t have b: "sanitizedName (js ''My Server.v2'') = js ''My-Server_v2''" by blast
  have "map remoteCommand cs =
        [None, None, None,
         Some (js ''claude mcp add --transport http '' @ [0x22] @ js ''My-Server_v2'' @
               [0x22] @ js '' '' @ js ''https://e.com/mcp''),
         None, None, None, None]"
    unfolding a b ..
  then show ?thesis using cs by (simp add: js_def)
qed

text \<open>
  Claim C3 says the builder never fails. It does: for the url \<open>https://\<close> U+4F8B
  \<open>.jp/mcp\<close> the Cursor entry's \<open>btoa\<close> raises \<open>InvalidCharacterError\<close>, because the JSON
  text holds a code unit above 0xFF. Lemma \<open>generateMCPConfig_returns_iff\<close> gives the exact
  set of inputs on which the function returns.
\<close>

theorem generateMCPConfig_raises_on_non_latin1_url:
  "generateMCPConfig (js ''https://'' @ [0x4F8B] @ js ''.jp/mcp'') (js ''X'') =
     Inl InvalidCharacterError"
proof -
  have e: "encodeURIComponent (js ''X'') = Inr (js ''X'')"
    by (simp add: js_def uriUnescaped_def)
  have "\<not> latin1 (jsonEscape (js ''https://'' @ [0x4F8B] @ js ''.jp/mcp''))"
    by (simp add: js_def isHighSurrogate_def isLowSurrogate_def)
  then have "\<not> (\<exists>r. btoa (JSON_stringify
      (JObj [(js ''url'', JStr (js ''https://'' @ [0x4F8B] @ js ''.jp/mcp''))])) = Inr r)"
    unfolding cursor_config_returns_iff .
  then have "btoa (JSON_stringify
      (JObj [(js ''url'', JStr (js ''https://'' @ [0x4F8B] @ js ''.jp/mcp''))])) =
      Inl InvalidCharacterError"
    by (simp add: btoa_def split: if_splits)
  then show ?thesis
    unfolding generateMCPConfig_def e by simp
qed

text \<open>
  The other way to make the builder raise: a name with an unpaired surrogate, which
  \<open>encodeURIComponent\<close> rejects.
\<close>

lemma generateMCPConfig_raises_on_unpaired_surrogate:
  "generateMCPConfig (js ''https://e.com/mcp'') [0xD83D] = Inl URIError"
proof -
  have "encodeURIComponent [0xD83D] = Inl URIError"
    by (simp add: uriUnescaped_def isLowSurrogate_def isHighSurrogate_def)
  then show ?thesis
    unfolding generateMCPConfig_def by simp
qed

section \<open>Claims about the metadata resolver\<close>

lemma str_includes_Nil [simp]: "str_includes s []"
  by (cases s) simp_all

lemma fetchMCPMetadata_total: "\<exists>v. fetchMCPMetadata P mcpUrl = Inr v"
  by (cases "fetchMCPMetadata_try P mcpUrl") (simp_all add: fetchMCPMetadata_def)

lemma fetchMCPMetadata_rejected:
  "fetch P (wellKnownUrl mcpUrl) = Inl e \<Longrightarrow> fetchMCPMetadata P mcpUrl = Inr JNull"
  by (simp add: fetchMCPMetadata_def fetchMCPMetadata_try_def)

lemma fetchMCPMetadata_not_ok:
  "fetch P (wellKnownUrl mcpUrl) = Inr r \<Longrightarrow> \<not> ok r \<Longrightarrow> fetchMCPMetadata P mcpUrl = Inr JNull"
  by (simp add: fetchMCPMetadata_def fetchMCPMetadata_try_def)

lemma fetchMCPMetadata_malformed:
  "fetch P (wellKnownUrl mcpUrl) = Inr r \<Longrightarrow> ok r \<Longrightarrow> json_result r = Inl e \<Longrightarrow>
     fetchMCPMetadata P mcpUrl = Inr JNull"
  by (simp add: fetchMCPMetadata_def fetchMCPMetadata_try_def)

lemma fetchMCPMetadata_array:
  "fetch P (wellKnownUrl mcpUrl) = Inr r \<Longrightarrow> ok r \<Longrightarrow> json_result r = Inr (JArray cards) \<Longrightarrow>
     fetchMCPMetadata P mcpUrl =
       (case find_card P mcpUrl cards of
          Inl e \<Rightarrow> Inr JNull
        | Inr m \<Rightarrow> Inr (matchOrFirst m cards))"
  by (simp add: fetchMCPMetadata_def fetchMCPMetadata_try_def bindE_def split: sum.splits)

lemma fetchMCPMetadata_empty:
  "fetch P (wellKnownUrl mcpUrl) = Inr r \<Longrightarrow> ok r \<Longrightarrow> json_result r = Inr (JArray []) \<Longrightarrow>
     fetchMCPMetadata P mcpUrl = Inr JNull"
  by (simp add: fetchMCPMetadata_array matchOrFirst_def)

lemma find_card_first_match:
  "list_all (\<lambda>c. cardMatches P mcpUrl c = Inr False) before \<Longrightarrow>
   cardMatches P mcpUrl crd = Inr True \<Longrightarrow>
   find_card P mcpUrl (before @ crd # rest) = Inr (Some crd)"
  by (induction before) simp_all

lemma cardMatches_True_object:
  "cardMatches P mcpUrl crd = Inr True \<Longrightarrow> \<exists>kvs. crd = JObject kvs"
  by (cases crd) (simp_all add: cardMatches_def)

lemma matchOrFirst_match:
  "cardMatches P mcpUrl crd = Inr True \<Longrightarrow> matchOrFirst (Some crd) cards = crd"
  using cardMatches_True_object [of P mcpUrl crd] by (auto simp: matchOrFirst_def)

lemma fetchMCPMetadata_selects:
  assumes "fetch P (wellKnownUrl mcpUrl) = Inr r" "ok r"
    "json_result r = Inr (JArray (before @ crd # rest))"
    "list_all (\<lambda>c. cardMatches P mcpUrl c = Inr False) before"
    "cardMatches P mcpUrl crd = Inr True"
  shows "fetchMCPMetadata P mcpUrl = Inr crd"
  using fetchMCPMetadata_array [OF assms(1-3)] find_card_first_match [OF assms(4,5)]
    matchOrFirst_match [OF assms(5)]
  by simp

lemma sse_without_endpoint_matches:
  assumes "getProp crd (js ''transport'') = Inr (Some (JObject t))"
    "map_of t (js ''type'') = Some (JString (js ''sse''))"
    "map_of t (js ''endpoint'') = None"
  shows "cardMatches P mcpUrl crd = Inr True"
proof -
  have ne: "js ''sse'' \<noteq> js ''streamable-http''" by (simp add: js_def)
  show ?thesis
    using assms ne
    by (cases "map_of t (js ''url'') = Some (JString mcpUrl)") (simp_all add: cardMatches_def)
qed

lemma wellKnownUrl_example:
  "wellKnownUrl (js ''https://e.com/mcp'') = js ''https://e.com/.well-known/mcp''"
  by (simp add: wellKnownUrl_def js_def)

lemma key_neqs [simp]:
  "js ''type'' \<noteq> js ''transport''" "js ''endpoint'' \<noteq> js ''type''" "js ''type'' \<noteq> js ''endpoint''"
  "js ''url'' \<noteq> js ''type''" "js ''type'' \<noteq> js ''url''" "js ''endpoint'' \<noteq> js ''url''"
  "js ''url'' \<noteq> js ''endpoint''"
  "js ''sse'' \<noteq> js ''streamable-http''" "js ''stdio'' \<noteq> js ''streamable-http''"
  "js ''stdio'' \<noteq> js ''sse''" "js ''streamable-http'' \<noteq> js ''sse''"
  by (simp_all add: js_def)

lemma resolvesTo_matches:
  assumes "resolvesTo P mcpUrl crd"
  shows "cardMatches P mcpUrl crd = Inr True"
proof (cases "getProp crd (js ''transport'')")
  case (Inl e)
  with assms show ?thesis by (simp add: resolvesTo_def)
next
  case (Inr x)
  show ?thesis
  proof (cases x)
    case None
    with assms Inr show ?thesis by (simp add: resolvesTo_def)
  next
    case (Some t)
    show ?thesis
    proof (cases "getProp t (js ''endpoint'')")
      case (Inl e)
      with assms Inr Some show ?thesis by (simp add: resolvesTo_def)
    next
      case e: (Inr e)
      with assms Inr Some show ?thesis by (simp add: resolvesTo_def cardMatches_def)
    qed
  qed
qed

lemma stdio_never_matches:
  assumes "isStdio crd"
  shows "cardMatches P mcpUrl crd = Inr False"
proof (cases "getProp crd (js ''transport'')")
  case (Inl e)
  with assms show ?thesis by (simp add: isStdio_def)
next
  case (Inr x)
  show ?thesis
  proof (cases x)
    case None
    with assms Inr show ?thesis by (simp add: isStdio_def)
  next
    case (Some t)
    with assms Inr show ?thesis by (simp add: isStdio_def cardMatches_def)
  qed
qed

lemma example_httpCard_resolves:
  "resolvesTo (examplePlatform outcome) exampleUrl (httpCard (js ''/mcp''))"
  by (simp add: resolvesTo_def httpCard_def examplePlatform_def exampleHref_def exampleUrl_def)

lemma example_short_endpoint_not_resolves:
  "\<not> resolvesTo (examplePlatform outcome) exampleUrl (httpCard (js ''/m''))"
  by (simp add: resolvesTo_def httpCard_def examplePlatform_def exampleHref_def exampleUrl_def js_def)

lemma example_short_endpoint_matches:
  "cardMatches (examplePlatform outcome) exampleUrl (httpCard (js ''/m'')) = Inr True"
  by (simp add: cardMatches_def httpCard_def examplePlatform_def exampleHref_def exampleUrl_def js_def)

lemma example_fetch:
  "fetch (examplePlatform (okResponse data)) u = Inr \<lparr> ok = True, json_result = Inr data \<rparr>"
  by (simp add: examplePlatform_def okResponse_def)

lemma example_stdio: "isStdio stdioCard"
  by (simp add: isStdio_def stdioCard_def)

lemma example_cards_differ:
  "httpCard (js ''/m'') \<noteq> httpCard (js ''/mcp'')" "stdioCard \<noteq> httpCard (js ''/mcp'')"
  "sseCard u \<noteq> httpCard e"
  by (simp_all add: httpCard_def stdioCard_def sseCard_def js_def)

text \<open>
  Claim C6. \<open>fetchMCPMetadata\<close> never throws to its caller: for every platform and every
  endpoint URL it resolves to a value, and a rejected fetch, a response that is not ok, a
  body that is not JSON and an empty list of documents each give \<open>null\<close>.
\<close>

theorem fetchMCPMetadata_never_throws:
  "(\<exists>v. fetchMCPMetadata P mcpUrl = Inr v) \<and>
   (fetch P (wellKnownUrl mcpUrl) = Inl e \<longrightarrow> fetchMCPMetadata P mcpUrl = Inr JNull) \<and>
   (fetch P (wellKnownUrl mcpUrl) = Inr r \<and> \<not> ok r \<longrightarrow> fetchMCPMetadata P mcpUrl = Inr JNull) \<and>
   (fetch P (wellKnownUrl mcpUrl) = Inr r \<and> ok r \<and> json_result r = Inl e' \<longrightarrow>
      fetchMCPMetadata P mcpUrl = Inr JNull) \<and>
   (fetch P (wellKnownUrl mcpUrl) = Inr r \<and> ok r \<and> json_result r = Inr (JArray []) \<longrightarrow>
      fetchMCPMetadata P mcpUrl = Inr JNull)"
  using fetchMCPMetadata_total [of P mcpUrl] fetchMCPMetadata_rejected [of P mcpUrl e]
    fetchMCPMetadata_not_ok [of P mcpUrl r] fetchMCPMetadata_malformed [of P mcpUrl r e']
    fetchMCPMetadata_empty [of P mcpUrl r]
  by blast

text \<open>The four failures, one platform each.\<close>

theorem fetchMCPMetadata_never_throws_witness:
  "fetchMCPMetadata (examplePlatform (Inl NetworkError)) exampleUrl = Inr JNull \<and>
   fetchMCPMetadata (examplePlatform (Inr \<lparr> ok = False, json_result = Inr (JObject []) \<rparr>))
     exampleUrl = Inr JNull \<and>
   fetchMCPMetadata (examplePlatform (Inr \<lparr> ok = True, json_result = Inl SyntaxError \<rparr>))
     exampleUrl = Inr JNull \<and>
   fetchMCPMetadata (examplePlatform (okResponse (JArray []))) exampleUrl = Inr JNull"
proof -
  have a: "fetchMCPMetadata (examplePlatform (Inl NetworkError)) exampleUrl = Inr JNull"
    using fetchMCPMetadata_never_throws
      [of "examplePlatform (Inl NetworkError)" exampleUrl NetworkError]
    by (simp add: examplePlatform_def)
  have b: "fetchMCPMetadata (examplePlatform (Inr \<lparr> ok = False, json_result = Inr (JObject []) \<rparr>))
     exampleUrl = Inr JNull"
    using fetchMCPMetadata_never_throws
      [of "examplePlatform (Inr \<lparr> ok = False, json_result = Inr (JObject []) \<rparr>)" exampleUrl _
        "\<lparr> ok = False, json_result = Inr (JObject []) \<rparr>"]
    by (simp add: examplePlatform_def)
  have c: "fetchMCPMetadata (examplePlatform (Inr \<lparr> ok = True, json_result = Inl SyntaxError \<rparr>))
     exampleUrl = Inr JNull"
    using fetchMCPMetadata_never_throws
      [of "examplePlatform (Inr \<lparr> ok = True, json_result = Inl SyntaxError \<rparr>)" exampleUrl _
        "\<lparr> ok = True, json_result = Inl SyntaxError \<rparr>" SyntaxError]
    by (simp add: examplePlatform_def)
  have d: "fetchMCPMetadata (examplePlatform (okResponse (JArray []))) exampleUrl = Inr JNull"
    using fetchMCPMetadata_never_throws
      [of "examplePlatform (okResponse (JArray []))" exampleUrl _
        "\<lparr> ok = True, json_result = Inr (JArray []) \<rparr>"]
    by (simp add: example_fetch)
  from a b c d show ?thesis by blast
qed

text \<open>
  Claim C10. A document whose transport is an object of type \<open>sse\<close> without an
  \<open>endpoint\<close> property is accepted by the matching step for every queried URL (the
  containment test is against the empty string); so it is the document selected when no
  document before it in the list is accepted, whatever follows it.
\<close>

theorem sse_without_endpoint_always_matches:
  "getProp crd (js ''transport'') = Inr (Some (JObject t)) \<and>
   map_of t (js ''type'') = Some (JString (js ''sse'')) \<and>
   map_of t (js ''endpoint'') = None \<longrightarrow>
     str_includes mcpUrl [] \<and>
     cardMatches P mcpUrl crd = Inr True \<and>
     (fetch P (wellKnownUrl mcpUrl) = Inr r \<and> ok r \<and>
      json_result r = Inr (JArray (before @ crd # rest)) \<and>
      list_all (\<lambda>c. cardMatches P mcpUrl c = Inr False) before \<longrightarrow>
        fetchMCPMetadata P mcpUrl = Inr crd)"
  using sse_without_endpoint_matches [of crd t P mcpUrl]
    fetchMCPMetadata_selects [of P mcpUrl r before crd rest]
  by auto

text \<open>
  An \<open>sse\<close> document for another URL, placed before a document whose endpoint resolves to
  the queried URL, is the one selected.
\<close>

theorem sse_without_endpoint_always_matches_witness:
  "resolvesTo (examplePlatform (okResponse (JArray [sseCard (js ''https://other.example/sse''),
       httpCard (js ''/mcp'')]))) exampleUrl (httpCard (js ''/mcp'')) \<and>
   fetchMCPMetadata (examplePlatform (okResponse (JArray [sseCard (js ''https://other.example/sse''),
       httpCard (js ''/mcp'')]))) exampleUrl = Inr (sseCard (js ''https://other.example/sse''))"
proof -
  let ?sse = "sseCard (js ''https://other.example/sse'')"
  let ?P = "examplePlatform (okResponse (JArray [?sse, httpCard (js ''/mcp'')]))"
  have g: "getProp ?sse (js ''transport'') =
      Inr (Some (JObject [(js ''type'', JString (js ''sse'')),
                          (js ''url'', JString (js ''https://other.example/sse''))]))"
    by (simp add: sseCard_def)
  have "fetchMCPMetadata ?P exampleUrl = Inr ?sse"
    using sse_without_endpoint_always_matches [of ?sse
        "[(js ''type'', JString (js ''sse'')), (js ''url'', JString (js ''https://other.example/sse''))]"
        exampleUrl ?P "\<lparr> ok = True, json_result = Inr (JArray [?sse, httpCard (js ''/mcp'')]) \<rparr>"
        "[]" "[httpCard (js ''/mcp'')]"] g
    by (simp add: example_fetch)
  then show ?thesis using example_httpCard_resolves by blast
qed

lemma notUrlBased_rejected:
  assumes "notUrlBased crd"
  shows "cardMatches P mcpUrl crd = Inr False"
proof (cases "getProp crd (js ''transport'')")
  case (Inl e)
  with assms show ?thesis by (simp add: notUrlBased_def)
next
  case (Inr x)
  show ?thesis
  proof (cases x)
    case None
    with Inr show ?thesis by (simp add: cardMatches_def)
  next
    case (Some t)
    show ?thesis
    proof (cases "truthy (Some t)")
      case False
      with Inr Some show ?thesis by (simp add: cardMatches_def)
    next
      case True
      with assms Inr Some show ?thesis
        by (cases "getProp t (js ''type'')") (simp_all add: notUrlBased_def cardMatches_def)
    qed
  qed
qed

lemma httpEndpoint_shape:
  assumes "httpEndpoint crd = Some s"
  obtains kvs t where "crd = JObject kvs" "map_of kvs (js ''transport'') = Some (JObject t)"
    "map_of t (js ''type'') = Some (JString (js ''streamable-http''))"
    "map_of t (js ''endpoint'') = Some (JString s)"
  using assms unfolding httpEndpoint_def
  by (auto split: json.splits option.splits if_splits)

lemma httpEndpoint_verdict:
  assumes "httpEndpoint crd = Some s" "newURL_href P (Some (JString s)) mcpUrl = Inr h"
  shows "cardMatches P mcpUrl crd = Inr (h = mcpUrl \<or> str_includes mcpUrl s)"
proof -
  from assms(1) obtain kvs t where c: "crd = JObject kvs"
    "map_of kvs (js ''transport'') = Some (JObject t)"
    "map_of t (js ''type'') = Some (JString (js ''streamable-http''))"
    "map_of t (js ''endpoint'') = Some (JString s)"
    by (rule httpEndpoint_shape)
  show ?thesis
    using c assms(2) by (cases s) (simp_all add: cardMatches_def)
qed

lemma httpEndpoint_raises:
  assumes "httpEndpoint crd = Some s" "newURL_href P (Some (JString s)) mcpUrl = Inl e"
  shows "cardMatches P mcpUrl crd = Inl e"
proof -
  from assms(1) obtain kvs t where c: "crd = JObject kvs"
    "map_of kvs (js ''transport'') = Some (JObject t)"
    "map_of t (js ''type'') = Some (JString (js ''streamable-http''))"
    "map_of t (js ''endpoint'') = Some (JString s)"
    by (rule httpEndpoint_shape)
  show ?thesis
    using c assms(2) by (simp add: cardMatches_def)
qed

lemma httpEndpoint_resolvesTo:
  assumes "httpEndpoint crd = Some s"
  shows "resolvesTo P mcpUrl crd \<longleftrightarrow> newURL_href P (Some (JString s)) mcpUrl = Inr mcpUrl"
proof -
  from assms(1) obtain kvs t where c: "crd = JObject kvs"
    "map_of kvs (js ''transport'') = Some (JObject t)"
    "map_of t (js ''type'') = Some (JString (js ''streamable-http''))"
    "map_of t (js ''endpoint'') = Some (JString s)"
    by (rule httpEndpoint_shape)
  show ?thesis
    using c by (simp add: resolvesTo_def)
qed

lemma sseNoEndpoint_matches:
  assumes "sseNoEndpoint crd"
  shows "cardMatches P mcpUrl crd = Inr True"
proof -
  from assms obtain kvs t where "crd = JObject kvs"
    "map_of kvs (js ''transport'') = Some (JObject t)"
    "map_of t (js ''type'') = Some (JString (js ''sse''))" "map_of t (js ''endpoint'') = None"
    unfolding sseNoEndpoint_def by (auto split: json.splits option.splits)
  then show ?thesis
    using sse_without_endpoint_matches [of crd t P mcpUrl] by simp
qed

lemma isStdio_notUrlBased:
  assumes "isStdio crd"
  shows "notUrlBased crd"
proof (cases "getProp crd (js ''transport'')")
  case (Inl e)
  with assms show ?thesis by (simp add: isStdio_def)
next
  case (Inr x)
  show ?thesis
  proof (cases x)
    case None
    with assms Inr show ?thesis by (simp add: isStdio_def)
  next
    case (Some t)
    with assms Inr show ?thesis by (simp add: isStdio_def notUrlBased_def)
  qed
qed

lemma fetchMCPMetadata_first_raises:
  assumes "fetch P (wellKnownUrl mcpUrl) = Inr r" "ok r"
    "json_result r = Inr (JArray (crd # rest))" "cardMatches P mcpUrl crd = Inl e"
  shows "fetchMCPMetadata P mcpUrl = Inr JNull"
  using fetchMCPMetadata_array [OF assms(1-3)] assms(4) by simp

lemma two_documents:
  assumes "fetch P (wellKnownUrl mcpUrl) = Inr r" "ok r"
    "json_result r = Inr (JArray [first, second])" "cardMatches P mcpUrl second = Inr True"
    "cardMatches P mcpUrl first = Inr b"
  shows "fetchMCPMetadata P mcpUrl = Inr (if b then first else second)"
proof (cases b)
  case True
  with fetchMCPMetadata_selects [of P mcpUrl r "[]" first "[second]"] assms show ?thesis by simp
next
  case False
  with fetchMCPMetadata_selects [of P mcpUrl r "[first]" second "[]"] assms show ?thesis by simp
qed

lemma example_other_endpoint:
  "httpEndpoint (httpCard (js ''/other'')) = Some (js ''/other'')"
  "newURL_href (examplePlatform outcome) (Some (JString (js ''/other''))) exampleUrl =
     Inr (js ''https://e.com/other'')"
  "\<not> str_includes exampleUrl (js ''/other'')"
  "\<not> resolvesTo (examplePlatform outcome) exampleUrl (httpCard (js ''/other''))"
  "httpCard (js ''/other'') \<noteq> httpCard (js ''/mcp'')"
  by (simp_all add: httpEndpoint_def httpCard_def examplePlatform_def exampleHref_def
      exampleUrl_def resolvesTo_def js_def)

lemma example_stdio_not_resolves:
  "\<not> resolvesTo P mcpUrl stdioCard"
  by (simp add: resolvesTo_def stdioCard_def js_def)

text \<open>
  Claim C4, as the code has it. In a list of two documents of which only the second has a
  \<open>streamable-http\<close> transport resolving to the queried URL, the second is selected when
  the first has no URL-based transport, and when the first's \<open>streamable-http\<close> endpoint
  does not occur in the queried URL; the first is selected when its endpoint occurs in
  the queried URL, or when it is an \<open>sse\<close> document without endpoint; and the result is
  \<open>null\<close> when resolving the first's endpoint raises. A document whose transport type is
  \<open>stdio\<close> has no URL-based transport and is always rejected.
\<close>

theorem second_document_selected:
  "(fetch P (wellKnownUrl mcpUrl) = Inr r \<and> ok r \<and> json_result r = Inr (JArray [first, second]) \<and>
    resolvesTo P mcpUrl second \<and> \<not> resolvesTo P mcpUrl first \<longrightarrow>
      (notUrlBased first \<longrightarrow> fetchMCPMetadata P mcpUrl = Inr second) \<and>
      (httpEndpoint first = Some s \<and> newURL_href P (Some (JString s)) mcpUrl = Inr h \<longrightarrow>
         fetchMCPMetadata P mcpUrl = Inr (if str_includes mcpUrl s then first else second)) \<and>
      (httpEndpoint first = Some s \<and> newURL_href P (Some (JString s)) mcpUrl = Inl e \<longrightarrow>
         fetchMCPMetadata P mcpUrl = Inr JNull) \<and>
      (sseNoEndpoint first \<longrightarrow> fetchMCPMetadata P mcpUrl = Inr first)) \<and>
   (isStdio crd \<longrightarrow> notUrlBased crd \<and> cardMatches P mcpUrl crd = Inr False)"
proof -
  have stdio: "isStdio crd \<longrightarrow> notUrlBased crd \<and> cardMatches P mcpUrl crd = Inr False"
    using isStdio_notUrlBased [of crd] notUrlBased_rejected [of crd P mcpUrl] by blast
  {
    assume f: "fetch P (wellKnownUrl mcpUrl) = Inr r" "ok r"
      "json_result r = Inr (JArray [first, second])"
      and s2: "resolvesTo P mcpUrl second" and s1: "\<not> resolvesTo P mcpUrl first"
    note m2 = resolvesTo_matches [OF s2]
    have a: "fetchMCPMetadata P mcpUrl = Inr second" if "notUrlBased first"
      using two_documents [OF f m2 notUrlBased_rejected [OF that]] by simp
    have b: "fetchMCPMetadata P mcpUrl = Inr (if str_includes mcpUrl s then first else second)"
      if "httpEndpoint first = Some s" "newURL_href P (Some (JString s)) mcpUrl = Inr h"
    proof -
      from s1 that have "h \<noteq> mcpUrl" by (auto simp: httpEndpoint_resolvesTo)
      with httpEndpoint_verdict [OF that]
      have "cardMatches P mcpUrl first = Inr (str_includes mcpUrl s)" by simp
      from two_documents [OF f m2 this] show ?thesis .
    qed
    have c: "fetchMCPMetadata P mcpUrl = Inr JNull"
      if "httpEndpoint first = Some s" "newURL_href P (Some (JString s)) mcpUrl = Inl e"
      using fetchMCPMetadata_first_raises [OF f httpEndpoint_raises [OF that]] .
    have d: "fetchMCPMetadata P mcpUrl = Inr first" if "sseNoEndpoint first"
      using two_documents [OF f m2 sseNoEndpoint_matches [OF that]] by simp
    note a b c d
  }
  with stdio show ?thesis by blast
qed


text \<open>
  The matching document second, after a document whose endpoint \<open>/other\<close> resolves
  elsewhere and does not occur in the queried URL, and after a \<open>stdio\<close> document.
\<close>

theorem second_document_selected_witness:
  "fetchMCPMetadata (examplePlatform (okResponse (JArray [httpCard (js ''/other''), httpCard (js ''/mcp'')])))
     exampleUrl = Inr (httpCard (js ''/mcp'')) \<and>
   httpCard (js ''/other'') \<noteq> httpCard (js ''/mcp'') \<and>
   isStdio stdioCard \<and>
   fetchMCPMetadata (examplePlatform (okResponse (JArray [stdioCard, httpCard (js ''/mcp'')])))
     exampleUrl = Inr (httpCard (js ''/mcp''))"
proof -
  let ?P = "examplePlatform (okResponse (JArray [httpCard (js ''/other''), httpCard (js ''/mcp'')]))"
  let ?Q = "examplePlatform (okResponse (JArray [stdioCard, httpCard (js ''/mcp'')]))"
  note t = second_document_selected [of ?P exampleUrl
      "\<lparr> ok = True, json_result = Inr (JArray [httpCard (js ''/other''), httpCard (js ''/mcp'')]) \<rparr>"
      "httpCard (js ''/other'')" "httpCard (js ''/mcp'')" "js ''/other''" "js ''https://e.com/other''"
      _ stdioCard]
  from t have a: "fetchMCPMetadata ?P exampleUrl = Inr (httpCard (js ''/mcp''))"
    using example_other_endpoint(1-4) example_httpCard_resolves by (simp add: example_fetch)
  from t example_stdio have n: "notUrlBased stdioCard" by blast
  note u = second_document_selected [of ?Q exampleUrl
      "\<lparr> ok = True, json_result = Inr (JArray [stdioCard, httpCard (js ''/mcp'')]) \<rparr>"
      stdioCard "httpCard (js ''/mcp'')"]
  from u n have b: "fetchMCPMetadata ?Q exampleUrl = Inr (httpCard (js ''/mcp''))"
    using example_stdio_not_resolves example_httpCard_resolves by (simp add: example_fetch)
  from a b example_other_endpoint(5) example_stdio show ?thesis by blast
qed

text \<open>
  C4 as stated fails: the first document's endpoint \<open>/m\<close> resolves to
  \<open>https://e.com/m\<close>, not to the queried \<open>https://e.com/mcp\<close>, but \<open>/m\<close> occurs in the
  queried URL, so the containment test accepts the first document.
\<close>

theorem second_document_selected_counterexample:
  "\<not> resolvesTo (examplePlatform (okResponse (JArray [httpCard (js ''/m''), httpCard (js ''/mcp'')])))
       exampleUrl (httpCard (js ''/m'')) \<and>
   resolvesTo (examplePlatform (okResponse (JArray [httpCard (js ''/m''), httpCard (js ''/mcp'')])))
     exampleUrl (httpCard (js ''/mcp'')) \<and>
   fetchMCPMetadata (examplePlatform (okResponse (JArray [httpCard (js ''/m''), httpCard (js ''/mcp'')])))
     exampleUrl = Inr (httpCard (js ''/m'')) \<and>
   httpCard (js ''/m'') \<noteq> httpCard (js ''/mcp'')"
proof -
  let ?P = "examplePlatform (okResponse (JArray [httpCard (js ''/m''), httpCard (js ''/mcp'')]))"
  have "fetchMCPMetadata ?P exampleUrl = Inr (httpCard (js ''/m''))"
    using fetchMCPMetadata_selects [of ?P exampleUrl
        "\<lparr> ok = True, json_result = Inr (JArray [httpCard (js ''/m''), httpCard (js ''/mcp'')]) \<rparr>"
        "[]" "httpCard (js ''/m'')" "[httpCard (js ''/mcp'')]"]
      example_short_endpoint_matches
    by (simp add: example_fetch)
  then show ?thesis
    using example_short_endpoint_not_resolves example_httpCard_resolves example_cards_differ(1)
    by blast
qed

section \<open>Claims about icon selection\<close>

lemma find_first:
  "list_all (\<lambda>x. \<not> Q x) before \<Longrightarrow> Q p \<Longrightarrow> find Q (before @ p # rest) = Some p"
  by (induction before) simp_all

lemma find_none: "list_all (\<lambda>x. \<not> Q x) xs \<Longrightarrow> find Q xs = None"
  by (induction xs) simp_all

lemma getBestIcon_Some:
  "getBestIcon (Some icons) =
     (case icons of
        [] \<Rightarrow> None
      | first # others \<Rightarrow>
          (case find isPngOrJpeg icons of
             Some preferred \<Rightarrow> Some (src preferred)
           | None \<Rightarrow> (case find isSvg icons of Some svg \<Rightarrow> Some (src svg) | None \<Rightarrow> Some (src first))))"
  by (cases icons) (auto simp: getBestIcon_def)

lemma svg_is_not_png:
  "\<not> isPngOrJpeg \<lparr> src = a, mimeType = Some (js ''image/svg+xml'') \<rparr>"
  by (simp add: isPngOrJpeg_def js_def)

lemma png_is_png: "isPngOrJpeg \<lparr> src = b, mimeType = Some (js ''image/png'') \<rparr>"
  by (simp add: isPngOrJpeg_def js_def)

text \<open>
  Claim C8. The icon chosen is the \<open>src\<close> of the first icon whose type matches the
  PNG/JPEG pattern; if there is none, of the first icon of type \<open>image/svg+xml\<close>; if there
  is none either, of the first icon of the list; and nothing for an empty or absent list.
  For an SVG icon followed by a PNG icon the PNG one is chosen.
\<close>

theorem getBestIcon_preference:
  "getBestIcon None = None \<and> getBestIcon (Some []) = None \<and>
   (icons = before @ p # rest \<and> isPngOrJpeg p \<and> list_all (\<lambda>i. \<not> isPngOrJpeg i) before \<longrightarrow>
      getBestIcon (Some icons) = Some (src p)) \<and>
   (list_all (\<lambda>i. \<not> isPngOrJpeg i) icons \<and>
    icons = before @ s # rest \<and> isSvg s \<and> list_all (\<lambda>i. \<not> isSvg i) before \<longrightarrow>
      getBestIcon (Some icons) = Some (src s)) \<and>
   (list_all (\<lambda>i. \<not> isPngOrJpeg i) icons \<and> list_all (\<lambda>i. \<not> isSvg i) icons \<and>
    icons = first # others \<longrightarrow>
      getBestIcon (Some icons) = Some (src first)) \<and>
   getBestIcon (Some [\<lparr> src = a, mimeType = Some (js ''image/svg+xml'') \<rparr>,
                      \<lparr> src = b, mimeType = Some (js ''image/png'') \<rparr>]) = Some b"
proof -
  have 1: "getBestIcon (Some icons) = Some (src p)"
    if "icons = before @ p # rest" "isPngOrJpeg p" "list_all (\<lambda>i. \<not> isPngOrJpeg i) before"
    using that find_first [of isPngOrJpeg before p rest]
    by (cases before) (simp_all add: getBestIcon_Some)
  have 2: "getBestIcon (Some icons) = Some (src s)"
    if "list_all (\<lambda>i. \<not> isPngOrJpeg i) icons" "icons = before @ s # rest" "isSvg s"
      "list_all (\<lambda>i. \<not> isSvg i) before"
    using that find_none [of isPngOrJpeg icons] find_first [of isSvg before s rest]
    by (cases before) (simp_all add: getBestIcon_Some)
  have 3: "getBestIcon (Some icons) = Some (src first)"
    if "list_all (\<lambda>i. \<not> isPngOrJpeg i) icons" "list_all (\<lambda>i. \<not> isSvg i) icons"
      "icons = first # others"
    using that find_none [of isPngOrJpeg icons] find_none [of isSvg icons]
    by (simp add: getBestIcon_Some)
  have 4: "getBestIcon (Some [\<lparr> src = a, mimeType = Some (js ''image/svg+xml'') \<rparr>,
                      \<lparr> src = b, mimeType = Some (js ''image/png'') \<rparr>]) = Some b"
    using svg_is_not_png [of a] png_is_png [of b] by (simp add: getBestIcon_def)
  have 0: "getBestIcon None = None" "getBestIcon (Some []) = None"
    by (simp_all add: getBestIcon_def)
  show ?thesis
    using 0 1 2 3 4 by blast
qed

text \<open>One list for each of the three preferences.\<close>

theorem getBestIcon_preference_witness:
  "getBestIcon (Some [\<lparr> src = js ''a.webp'', mimeType = Some (js ''image/webp'') \<rparr>,
                      \<lparr> src = js ''b.svg'', mimeType = Some (js ''image/svg+xml'') \<rparr>,
                      \<lparr> src = js ''c.jpg'', mimeType = Some (js ''image/jpeg'') \<rparr>,
                      \<lparr> src = js ''d.png'', mimeType = Some (js ''image/png'') \<rparr>]) = Some (js ''c.jpg'') \<and>
   getBestIcon (Some [\<lparr> src = js ''a.webp'', mimeType = Some (js ''image/webp'') \<rparr>,
                      \<lparr> src = js ''b.svg'', mimeType = Some (js ''image/svg+xml'') \<rparr>]) = Some (js ''b.svg'') \<and>
   getBestIcon (Some [\<lparr> src = js ''a.webp'', mimeType = Some (js ''image/webp'') \<rparr>,
                      \<lparr> src = js ''e.ico'', mimeType = None \<rparr>]) = Some (js ''a.webp'')"
proof -
  let ?w = "\<lparr> src = js ''a.webp'', mimeType = Some (js ''image/webp'') \<rparr>"
  let ?s = "\<lparr> src = js ''b.svg'', mimeType = Some (js ''image/svg+xml'') \<rparr>"
  let ?j = "\<lparr> src = js ''c.jpg'', mimeType = Some (js ''image/jpeg'') \<rparr>"
  let ?p = "\<lparr> src = js ''d.png'', mimeType = Some (js ''image/png'') \<rparr>"
  let ?n = "\<lparr> src = js ''e.ico'', mimeType = None \<rparr>"
  have w: "\<not> isPngOrJpeg ?w" "\<not> isSvg ?w" by (simp_all add: isPngOrJpeg_def isSvg_def js_def)
  have s: "\<not> isPngOrJpeg ?s" "isSvg ?s" by (simp_all add: isPngOrJpeg_def isSvg_def js_def)
  have j: "isPngOrJpeg ?j" by (simp add: isPngOrJpeg_def js_def)
  have n: "\<not> isPngOrJpeg ?n" "\<not> isSvg ?n" by (simp_all add: isPngOrJpeg_def isSvg_def)
  have a: "getBestIcon (Some [?w, ?s, ?j, ?p]) = Some (js ''c.jpg'')"
    using getBestIcon_preference [of "[?w, ?s, ?j, ?p]" "[?w, ?s]" ?j "[?p]"] w s j by simp
  have b: "getBestIcon (Some [?w, ?s]) = Some (js ''b.svg'')"
    using getBestIcon_preference [of "[?w, ?s]" "[?w]" _ "[]" ?s] w s by simp
  have c: "getBestIcon (Some [?w, ?n]) = Some (js ''a.webp'')"
    using getBestIcon_preference [of "[?w, ?n]" _ _ _ _ ?w "[?n]"] w n by simp
  from a b c show ?thesis by blast
qed

section \<open>Claims about the request handler\<close>

lemma gen_configJson:
  "generateMCPConfig mcpUrl serverName = Inr configs \<Longrightarrow>
     map configJson configs =
       [Some (JObj [(js ''mcpServers'', JObj [(serverName, JObj [(js ''url'', JStr mcpUrl)])])]),
        Some (JObj [(js ''mcp'', JObj [(js ''servers'',
          JObj [(serverName, JObj [(js ''type'', JStr (js ''http'')), (js ''url'', JStr mcpUrl)])])])]),
        None, None,
        Some (JObj [(js ''mcpServers'', JObj [(serverName, JObj [(js ''serverUrl'', JStr mcpUrl)])])]),
        Some (JObj [(js ''mcpServers'', JObj [(serverName,
          JObj [(js ''url'', JStr mcpUrl), (js ''type'', JStr (js ''streamableHttp''))])])]),
        Some (JObj [(js ''mcpServers'', JObj [(serverName, JObj [(js ''httpUrl'', JStr mcpUrl)])])]),
        None]"
  unfolding generateMCPConfig_def bindE_Inr_iff
  by auto

lemma generateMCPConfig_nonstring_raises:
  "generateMCPConfig_nonstring P mcpUrl v \<noteq> Inr configs"
  by (simp add: generateMCPConfig_nonstring_def bindE_def split: sum.splits)

lemma metadataTitle_null: "metadataTitle JNull = None"
  by (simp add: metadataTitle_def)

lemma handler_serverName_no_title:
  "\<not> truthy (metadataTitle metadata) \<Longrightarrow>
     handler_serverName metadata pathPart = handler_serverName JNull pathPart"
  by (cases "metadataTitle metadata") (simp_all add: handler_serverName_def metadataTitle_null)

lemma handler_configs_no_title:
  "\<not> truthy (metadataTitle metadata) \<Longrightarrow>
     handler_configs P metadata pathPart mcpUrl = handler_configs P JNull pathPart mcpUrl"
  by (simp add: handler_configs_def handler_serverName_no_title)

lemma handler_configs_title:
  "metadataTitle metadata = Some (JString t) \<Longrightarrow> t \<noteq> [] \<Longrightarrow>
     handler_configs P metadata pathPart mcpUrl = generateMCPConfig mcpUrl t"
  by (simp add: handler_configs_def handler_serverName_def)

lemma handler_configs_absent:
  "handler_configs P JNull pathPart mcpUrl =
     bindE (decodeURIComponent pathPart) (\<lambda>s. generateMCPConfig mcpUrl s)"
  by (cases "decodeURIComponent pathPart")
    (simp_all add: handler_configs_def handler_serverName_def metadataTitle_null)

lemma handler_configs_clients:
  assumes "handler_configs P metadata pathPart mcpUrl = Inr configs"
  shows "map client configs = catalogClients"
proof -
  from assms obtain n where n: "handler_serverName metadata pathPart = Inr n"
    "(case n of JString s \<Rightarrow> generateMCPConfig mcpUrl s
      | v \<Rightarrow> generateMCPConfig_nonstring P mcpUrl v) = Inr configs"
    by (auto simp: handler_configs_def bindE_Inr_iff)
  then obtain s where "generateMCPConfig mcpUrl s = Inr configs"
    using generateMCPConfig_nonstring_raises [of P mcpUrl _ configs]
    by (cases n) simp_all
  then show ?thesis using gen_clients by blast
qed

lemma metadataTitle_titled: "metadataTitle (titledMetadata t) = Some (JString t)"
  by (simp add: metadataTitle_def titledMetadata_def)

lemma decode_plain_N: "decodeURIComponent (js ''N'') = Inr (js ''N'')"
  by (simp add: js_def)

lemma ascii_returns:
  "ascii n \<Longrightarrow> ascii u \<Longrightarrow> \<exists>cs. generateMCPConfig u n = Inr cs"
  unfolding generateMCPConfig_returns_iff
  using isWellFormed_ascii [of n] latin1_jsonEscape [OF ascii_latin1 [of u]] by simp

lemma generateMCPConfig_name_inj:
  assumes "generateMCPConfig u n = Inr cs" "generateMCPConfig u n' = Inr cs"
  shows "n = n'"
  using gen_configJson [OF assms(1)] gen_configJson [OF assms(2)] by simp

lemma metadataTitle_untitled: "metadataTitle untitledMetadata = None"
  by (simp add: metadataTitle_def untitledMetadata_def js_def)

lemma ascii_exampleUrl: "ascii exampleUrl"
  by (simp add: exampleUrl_def js_def)

text \<open>
  Claim C5, as the code has it. Metadata reaches the descriptor list only through
  \<open>serverInfo.title\<close>: without a truthy title the list is the one built with metadata
  absent (from the decoded path name); a non-empty string title takes the place of the
  path name as the server name; and every list the handler builds has the clients of the
  catalog.
\<close>

theorem metadata_changes_only_the_name:
  "(\<not> truthy (metadataTitle metadata) \<longrightarrow>
      handler_configs P metadata pathPart mcpUrl = handler_configs P JNull pathPart mcpUrl) \<and>
   (metadataTitle metadata = Some (JString t) \<and> t \<noteq> [] \<longrightarrow>
      handler_configs P metadata pathPart mcpUrl = generateMCPConfig mcpUrl t) \<and>
   handler_configs P JNull pathPart mcpUrl =
      bindE (decodeURIComponent pathPart) (\<lambda>s. generateMCPConfig mcpUrl s) \<and>
   (handler_configs P metadata pathPart mcpUrl = Inr configs \<longrightarrow>
      map client configs = catalogClients)"
  using handler_configs_no_title [of metadata P pathPart mcpUrl]
    handler_configs_title [of metadata t P pathPart mcpUrl]
    handler_configs_absent [of P pathPart mcpUrl]
    handler_configs_clients [of P metadata pathPart mcpUrl configs]
  by blast

text \<open>Metadata without a title, and metadata with the title \<open>T\<close>.\<close>

theorem metadata_changes_only_the_name_witness:
  "handler_configs (examplePlatform (Inl NetworkError)) untitledMetadata (js ''N'') exampleUrl =
     handler_configs (examplePlatform (Inl NetworkError)) JNull (js ''N'') exampleUrl \<and>
   handler_configs (examplePlatform (Inl NetworkError)) (titledMetadata (js ''T'')) (js ''N'')
     exampleUrl = generateMCPConfig exampleUrl (js ''T'') \<and>
   (case handler_configs (examplePlatform (Inl NetworkError)) (titledMetadata (js ''T'')) (js ''N'')
           exampleUrl of
      Inl e \<Rightarrow> False
    | Inr configs \<Rightarrow> map client configs = catalogClients)"
proof -
  let ?P = "examplePlatform (Inl NetworkError)"
  have a: "handler_configs ?P untitledMetadata (js ''N'') exampleUrl =
      handler_configs ?P JNull (js ''N'') exampleUrl"
    using metadata_changes_only_the_name [of untitledMetadata ?P "js ''N''" exampleUrl]
    by (simp add: metadataTitle_untitled)
  have ne: "js ''T'' \<noteq> []" by (simp add: js_def)
  have b: "handler_configs ?P (titledMetadata (js ''T'')) (js ''N'') exampleUrl =
      generateMCPConfig exampleUrl (js ''T'')"
    using metadata_changes_only_the_name
      [of "titledMetadata (js ''T'')" ?P "js ''N''" exampleUrl "js ''T''"] ne
    by (simp add: metadataTitle_titled)
  have "ascii (js ''T'')" by (simp add: js_def)
  from ascii_returns [OF this ascii_exampleUrl] obtain cs where
    cs: "generateMCPConfig exampleUrl (js ''T'') = Inr cs" by blast
  have "map client cs = catalogClients"
    using metadata_changes_only_the_name
      [of "titledMetadata (js ''T'')" ?P "js ''N''" exampleUrl _ cs] b cs
    by simp
  with a b cs show ?thesis by simp
qed

text \<open>
  C5 as stated fails: for the path name \<open>N\<close>, metadata with the title \<open>T\<close> makes \<open>T\<close>
  the server key of the first descriptor's \<open>configJson\<close>, where metadata absent gives
  \<open>N\<close>.
\<close>

lemma gen_first_configJson:
  assumes "generateMCPConfig mcpUrl serverName = Inr configs"
  shows "configJson (hd configs) =
     Some (JObj [(js ''mcpServers'', JObj [(serverName, JObj [(js ''url'', JStr mcpUrl)])])])"
proof -
  from gen_clients [OF assms] have "configs \<noteq> []" by auto
  then have "configJson (hd configs) = hd (map configJson configs)" by (simp add: hd_map)
  then show ?thesis using gen_configJson [OF assms] by simp
qed

theorem metadata_changes_only_the_name_counterexample:
  "map_sum id (\<lambda>configs. configJson (hd configs))
     (handler_configs (examplePlatform (Inl NetworkError)) (titledMetadata (js ''T'')) (js ''N'')
        exampleUrl) =
     Inr (Some (JObj [(js ''mcpServers'', JObj [(js ''T'', JObj [(js ''url'', JStr exampleUrl)])])])) \<and>
   map_sum id (\<lambda>configs. configJson (hd configs))
     (handler_configs (examplePlatform (Inl NetworkError)) JNull (js ''N'') exampleUrl) =
     Inr (Some (JObj [(js ''mcpServers'', JObj [(js ''N'', JObj [(js ''url'', JStr exampleUrl)])])])) \<and>
   handler_configs (examplePlatform (Inl NetworkError)) (titledMetadata (js ''T'')) (js ''N'')
     exampleUrl \<noteq>
   handler_configs (examplePlatform (Inl NetworkError)) JNull (js ''N'') exampleUrl"
proof -
  let ?P = "examplePlatform (Inl NetworkError)"
  have ne: "js ''T'' \<noteq> []" by (simp add: js_def)
  have a: "handler_configs ?P (titledMetadata (js ''T'')) (js ''N'') exampleUrl =
      generateMCPConfig exampleUrl (js ''T'')"
    using handler_configs_title [OF metadataTitle_titled ne] .
  have b: "handler_configs ?P JNull (js ''N'') exampleUrl = generateMCPConfig exampleUrl (js ''N'')"
    by (simp add: handler_configs_absent decode_plain_N)
  have "ascii (js ''T'')" "ascii (js ''N'')" by (simp_all add: js_def)
  from this [THEN ascii_returns, OF ascii_exampleUrl] obtain cs cs' where
    cs: "generateMCPConfig exampleUrl (js ''T'') = Inr cs"
      "generateMCPConfig exampleUrl (js ''N'') = Inr cs'" by blast
  have "js ''T'' \<noteq> js ''N''" by (simp add: js_def)
  then have "cs' \<noteq> cs"
    using generateMCPConfig_name_inj [OF cs(1)] cs(2) by blast
  then show ?thesis
    unfolding a b cs using gen_first_configJson [OF cs(1)] gen_first_configJson [OF cs(2)]
    by simp
qed

section \<open>Claims about the markdown guide\<close>






lemma guide_raises:
  "generateMCPConfig mcpUrl serverName = Inl e \<Longrightarrow>
     generateMCPInstallationGuide mcpUrl serverName = Inl e"
  by (simp add: generateMCPInstallationGuide_def)









section \<open>Reading back what JSON.stringify wrote\<close>

lemma hexVal_hexLower: "n < 16 \<Longrightarrow> hexVal (hexLower n) = Some n"
  unfolding hexVal_def
  by (auto simp: word_le_nat_alt hexLower_unat)

lemma split16:
  "((u div 4096 * 16 + u div 256 mod 16) * 16 + u div 16 mod 16) * 16 + u mod 16 = (u::nat)"
proof -
  have a: "u div 4096 = (u div 256) div 16" by (simp add: div_mult2_eq [symmetric])
  have b: "u div 256 = (u div 16) div 16" by (simp add: div_mult2_eq [symmetric])
  have "u div 4096 * 16 + u div 256 mod 16 = u div 256" unfolding a by simp
  moreover have "u div 256 * 16 + u div 16 mod 16 = u div 16" unfolding b by simp
  ultimately show ?thesis by simp
qed

lemma hex4_unicodeEscape:
  "unicodeEscape c @ rest = 0x5C # 0x75 # h1 # h2 # h3 # h4 # rest \<Longrightarrow> hex4 h1 h2 h3 h4 = Some c"
proof -
  assume a: "unicodeEscape c @ rest = 0x5C # 0x75 # h1 # h2 # h3 # h4 # rest"
  have b: "unat c div 4096 < 16" using unat_lt16 [of c] by simp
  from a have h: "h1 = hexLower (unat c div 4096)" "h2 = hexLower (unat c div 256 mod 16)"
    "h3 = hexLower (unat c div 16 mod 16)" "h4 = hexLower (unat c mod 16)"
    by (simp_all add: unicodeEscape_def)
  have v: "hexVal h1 = Some (unat c div 4096)" "hexVal h2 = Some (unat c div 256 mod 16)"
    "hexVal h3 = Some (unat c div 16 mod 16)" "hexVal h4 = Some (unat c mod 16)"
    unfolding h using b by (simp_all add: hexVal_hexLower)
  have "hex4 h1 h2 h3 h4 =
      Some (of_nat (((unat c div 4096 * 16 + unat c div 256 mod 16) * 16 + unat c div 16 mod 16) * 16 +
            unat c mod 16))"
    unfolding hex4_def v by (simp only: prod.case option.case)
  then have "hex4 h1 h2 h3 h4 = Some (of_nat (unat c))" by (simp only: split16)
  then show ?thesis by simp
qed

lemma parse_unicodeEscape:
  "parseStringBody (unicodeEscape c @ rest) =
     (case parseStringBody rest of None \<Rightarrow> None | Some (str, r) \<Rightarrow> Some (c # str, r))"
proof -
  obtain h1 h2 h3 h4 where
    u: "unicodeEscape c @ rest = 0x5C # 0x75 # h1 # h2 # h3 # h4 # rest"
    by (simp add: unicodeEscape_def)
  from hex4_unicodeEscape [OF u] show ?thesis
    unfolding u by simp
qed

lemma jsonEscape_short_parse:
  "shortEscaped c \<Longrightarrow>
     \<exists>x. jsonEscape (c # cs) = 0x5C # x # jsonEscape cs \<and> x \<noteq> 0x75 \<and> simpleEscape x = Some c"
  unfolding shortEscaped_def by (elim disjE) (simp_all add: simpleEscape_def)

lemma parse_short:
  "x \<noteq> 0x75 \<Longrightarrow> simpleEscape x = Some c \<Longrightarrow>
     parseStringBody (0x5C # x # rest) =
       (case parseStringBody rest of None \<Rightarrow> None | Some (str, r) \<Rightarrow> Some (c # str, r))"
  by simp

lemma parse_plain:
  "c \<noteq> 0x22 \<Longrightarrow> c \<noteq> 0x5C \<Longrightarrow> \<not> c < 0x20 \<Longrightarrow>
     parseStringBody (c # rest) =
       (case parseStringBody rest of None \<Rightarrow> None | Some (str, r) \<Rightarrow> Some (c # str, r))"
  by simp

lemma not_short_plain: "\<not> shortEscaped c \<Longrightarrow> c \<noteq> 0x22 \<and> c \<noteq> 0x5C"
  by (auto simp: shortEscaped_def)

lemma parse_jsonEscape:
  "parseStringBody (jsonEscape s @ 0x22 # rest) = Some (s, rest)"
proof (induction s rule: measure_induct_rule [where f = length])
  case (less s)
  show ?case
  proof (cases s)
    case Nil
    then show ?thesis by simp
  next
    case (Cons c cs)
    have ih: "parseStringBody (jsonEscape cs @ 0x22 # rest) = Some (cs, rest)"
      using less Cons by simp
    have u: "parseStringBody (unicodeEscape c @ jsonEscape cs @ 0x22 # rest) = Some (c # cs, rest)"
      using ih by (simp add: parse_unicodeEscape del: parseStringBody.simps)
    consider (short) "shortEscaped c" | (ctl) "\<not> shortEscaped c" "c < 0x20"
      | (hi) "isHighSurrogate c" | (lo) "isLowSurrogate c"
      | (plain) "\<not> shortEscaped c" "\<not> c < 0x20" "\<not> isHighSurrogate c" "\<not> isLowSurrogate c"
      by blast
    then show ?thesis
    proof cases
      case short
      from jsonEscape_short_parse [OF short, of cs] obtain x where
        x: "jsonEscape (c # cs) = 0x5C # x # jsonEscape cs" "x \<noteq> 0x75" "simpleEscape x = Some c"
        by blast
      show ?thesis
        unfolding Cons x(1) using parse_short [OF x(2,3)] ih
        by (simp del: parseStringBody.simps jsonEscape.simps)
    next
      case ctl
      then show ?thesis
        unfolding Cons using u by (simp add: jsonEscape_control del: jsonEscape.simps parseStringBody.simps)
    next
      case hi
      note sp = surrogate_not_special [of c] not_short_plain [of c]
      show ?thesis
      proof (cases "case cs of [] \<Rightarrow> True | d # ds \<Rightarrow> \<not> isLowSurrogate d")
        case True
        then show ?thesis
          unfolding Cons using u hi
          by (simp add: jsonEscape_lone_high del: jsonEscape.simps parseStringBody.simps)
      next
        case False
        then obtain d ds where d: "cs = d # ds" "isLowSurrogate d"
          by (auto split: list.splits)
        have ih2: "parseStringBody (jsonEscape ds @ 0x22 # rest) = Some (ds, rest)"
          using less Cons d by simp
        have pc: "c \<noteq> 0x22" "c \<noteq> 0x5C" "\<not> c < 0x20" using sp hi by auto
        have pd: "d \<noteq> 0x22" "d \<noteq> 0x5C" "\<not> d < 0x20"
          using surrogate_not_special [of d] not_short_plain [of d] d(2) by auto
        show ?thesis
          unfolding Cons d(1) jsonEscape_pair [OF hi d(2)]
          using parse_plain [OF pc] parse_plain [OF pd] ih2
          by (simp del: jsonEscape.simps parseStringBody.simps)
      qed
    next
      case lo
      then show ?thesis
        unfolding Cons using u
        by (simp add: jsonEscape_lone_low del: jsonEscape.simps parseStringBody.simps)
    next
      case plain
      have pc: "c \<noteq> 0x22" "c \<noteq> 0x5C" using not_short_plain [OF plain(1)] by auto
      show ?thesis
        unfolding Cons using plain parse_plain [OF pc plain(2)] ih
        by (simp add: jsonEscape_plain del: jsonEscape.simps parseStringBody.simps)
    qed
  qed
qed

lemma parse_quoteJSON:
  "parseStringBody (tl (quoteJSON s) @ rest) = Some (s, rest)"
  by (simp add: quoteJSON_def parse_jsonEscape del: parseStringBody.simps)

lemma JSON_stringify_obj:
  "JSON_stringify (JObj kvs) = 0x7B # join [0x2C] (map member_text kvs) @ [0x7D]"
proof -
  have "(\<lambda>(k, v). quoteJSON k @ [0x3A] @ JSON_stringify v) = member_text"
    by (auto simp: fun_eq_iff member_text_def)
  then show ?thesis by simp
qed

lemma skipWs_nonws: "\<not> jsonWs c \<Longrightarrow> skipWs (c # cs) = c # cs"
  by (simp add: skipWs_def)

lemma skipWs_ws: "list_all jsonWs w \<Longrightarrow> \<not> jsonWs c \<Longrightarrow> skipWs (w @ c # cs) = c # cs"
  by (induction w) (simp_all add: skipWs_def)

lemma not_ws [simp]:
  "\<not> jsonWs 0x22" "\<not> jsonWs 0x7B" "\<not> jsonWs 0x7D" "\<not> jsonWs 0x3A" "\<not> jsonWs 0x2C"
  by (simp_all add: jsonWs_def)

lemma quoteJSON_Cons: "quoteJSON s @ rest = 0x22 # jsonEscape s @ 0x22 # rest"
  by (simp add: quoteJSON_def)

lemma parseValue_string:
  "0 < n \<Longrightarrow> parseValue n (quoteJSON s @ rest) = Some (JStr s, rest)"
  by (cases n) (simp_all add: quoteJSON_Cons skipWs_nonws parse_jsonEscape del: parseStringBody.simps)

lemma member_text_Cons:
  "member_text (k, v) @ rest = 0x22 # jsonEscape k @ 0x22 # 0x3A # JSON_stringify v @ rest"
  by (simp add: member_text_def quoteJSON_def del: JSON_stringify.simps)

lemma parseMembers_step:
  assumes "parseValue n (JSON_stringify v @ c3 # r4) = Some (v, c3 # r4)" "\<not> jsonWs c3"
  shows "parseMembers (Suc n) (member_text (k, v) @ c3 # r4) =
     (if c3 = 0x7D then Some ([(k, v)], r4)
      else if c3 = 0x2C then
        (case parseMembers n r4 of None \<Rightarrow> None | Some (kvs, r5) \<Rightarrow> Some ((k, v) # kvs, r5))
      else None)"
  unfolding member_text_Cons
  using assms
  by (simp add: skipWs_nonws parse_jsonEscape del: parseStringBody.simps JSON_stringify.simps)

lemma parseMembers_join:
  "kvs \<noteq> [] \<Longrightarrow> list_all parses kvs \<Longrightarrow> sum_list (map (\<lambda>(k, v). 1 + fuel v) kvs) \<le> m \<Longrightarrow>
     parseMembers m (join [0x2C] (map member_text kvs) @ 0x7D # rest) = Some (kvs, rest)"
proof (induction kvs arbitrary: m rule: list_nonempty_induct)
  case (single kv)
  obtain k v where kv: "kv = (k, v)" by (cases kv)
  from single(2) kv obtain n where m: "m = Suc n" "fuel v \<le> n" by (cases m) auto
  have "parseValue n (JSON_stringify v @ 0x7D # rest) = Some (v, 0x7D # rest)"
    using single(1) kv m by (simp add: parses_def del: JSON_stringify.simps)
  from parseMembers_step [OF this, of k] show ?case
    unfolding kv m(1) by (simp del: JSON_stringify.simps parseMembers.simps parseValue.simps)
next
  case (cons kv kvs)
  obtain k v where kv: "kv = (k, v)" by (cases kv)
  from cons(4) kv obtain n where m: "m = Suc n" "fuel v \<le> n"
    "sum_list (map (\<lambda>(k, v). 1 + fuel v) kvs) \<le> n" by (cases m) auto
  let ?r4 = "join [0x2C] (map member_text kvs) @ 0x7D # rest"
  have a: "parseValue n (JSON_stringify v @ 0x2C # ?r4) = Some (v, 0x2C # ?r4)"
    using cons(3) kv m by (simp add: parses_def del: JSON_stringify.simps)
  have "list_all parses kvs" using cons(3) by simp
  from cons(2) [OF this m(3)] have b: "parseMembers n ?r4 = Some (kvs, rest)" .
  have j: "join [0x2C] (map member_text (kv # kvs)) @ 0x7D # rest =
      member_text (k, v) @ 0x2C # ?r4"
    using cons(1) kv by (cases kvs) simp_all
  have "parseMembers (Suc n) (member_text (k, v) @ 0x2C # ?r4) = Some ((k, v) # kvs, rest)"
    using parseMembers_step [OF a, of k] b by (simp del: parseMembers.simps parseValue.simps)
  then show ?case
    unfolding m(1) kv j [unfolded kv] .
qed

lemma member_text_starts:
  "kvs \<noteq> [] \<Longrightarrow> \<exists>ds. join [0x2C] (map member_text kvs) @ rest = 0x22 # ds"
proof -
  assume "kvs \<noteq> []"
  then obtain kv kvs' where k: "kvs = kv # kvs'" by (cases kvs) auto
  obtain k v where kv: "kv = (k, v)" by (cases kv)
  show ?thesis
    unfolding k kv by (cases kvs') (simp_all add: member_text_def quoteJSON_def)
qed

lemma parseValue_stringify:
  "wfv v \<Longrightarrow> fuel v \<le> n \<Longrightarrow> parseValue n (JSON_stringify v @ rest) = Some (v, rest)"
proof (induction v arbitrary: n rest)
  case (JStr s)
  then show ?case using parseValue_string [of n s rest] by simp
next
  case (JObj kvs)
  from JObj(3) obtain m where m: "n = Suc m" "sum_list (map (\<lambda>(k, v). 1 + fuel v) kvs) \<le> m"
    by (cases n) auto
  show ?case
  proof (cases "kvs = []")
    case True
    then show ?thesis unfolding m by (simp add: skipWs_nonws)
  next
    case False
    have "parses kv" if "kv \<in> set kvs" for kv
    proof -
      obtain k v where kv: "kv = (k, v)" by (cases kv)
      from that JObj(2) kv have w: "wfv v" by (auto simp: list_all_iff)
      have "v \<in> Basic_BNFs.snds kv" using kv by simp
      from JObj(1) [OF that this w] show ?thesis
        unfolding parses_def kv by simp
    qed
    then have "list_all parses kvs" by (simp add: list_all_iff)
    from parseMembers_join [OF False this m(2)]
    have pm: "parseMembers m (join [0x2C] (map member_text kvs) @ 0x7D # rest) = Some (kvs, rest)" .
    from member_text_starts [OF False] obtain ds where
      ds: "join [0x2C] (map member_text kvs) @ 0x7D # rest = 0x22 # ds" by blast
    have d: "distinct (map fst kvs)" using JObj(2) by simp
    have "parseValue (Suc m) (0x7B # 0x22 # ds) = Some (JObj kvs, rest)"
      using pm d unfolding ds by (simp add: skipWs_nonws del: parseStringBody.simps)
    then show ?thesis
      unfolding m JSON_stringify_obj using ds by simp
  qed
qed

lemma length_join_ge: "sum_list (map length xs) \<le> length (join sep xs)"
  by (induction sep xs rule: join.induct) simp_all

lemma fuel_le_length: "fuel v \<le> length (JSON_stringify v)"
proof (induction v)
  case (JStr s)
  then show ?case by (simp add: quoteJSON_def)
next
  case (JObj kvs)
  have "1 + fuel (snd kv) \<le> length (member_text kv)" if "kv \<in> set kvs" for kv
  proof -
    obtain k v where kv: "kv = (k, v)" by (cases kv)
    have "v \<in> Basic_BNFs.snds kv" using kv by simp
    from JObj [OF that this] show ?thesis
      unfolding kv by (simp add: member_text_def quoteJSON_def del: JSON_stringify.simps)
  qed
  then have "sum_list (map (\<lambda>kv. 1 + fuel (snd kv)) kvs) \<le> sum_list (map (\<lambda>kv. length (member_text kv)) kvs)"
    by (rule sum_list_mono)
  also have "\<dots> = sum_list (map length (map member_text kvs))" by (simp add: comp_def)
  also have "\<dots> \<le> length (join [0x2C] (map member_text kvs))" by (rule length_join_ge)
  finally have "sum_list (map (\<lambda>kv. 1 + fuel (snd kv)) kvs) \<le> length (join [0x2C] (map member_text kvs))" .
  moreover have "(\<lambda>(k, v). 1 + fuel v) = (\<lambda>kv. 1 + fuel (snd kv))" by (auto simp: fun_eq_iff)
  ultimately show ?case
    unfolding JSON_stringify_obj by (simp add: case_prod_unfold)
qed

lemma JSON_parse_stringify: "wfv v \<Longrightarrow> JSON_parse (JSON_stringify v) = Some v"
  using parseValue_stringify [OF _ fuel_le_length, of v "[]"]
  by (simp add: JSON_parse_def skipWs_def del: JSON_stringify.simps)

lemma JSON_stringify_gap_obj:
  assumes "kvs \<noteq> []"
  shows "JSON_stringify_gap ind (JObj kvs) =
     0x7B # (0x0A # ind @ [0x20, 0x20]) @
     join ([0x2C, 0x0A] @ ind @ [0x20, 0x20]) (map (member_gap (ind @ [0x20, 0x20])) kvs) @
     (0x0A # ind) @ [0x7D]"
proof -
  have "(\<lambda>(k, v). quoteJSON k @ [0x3A, 0x20] @ JSON_stringify_gap (ind @ [0x20, 0x20]) v) =
      member_gap (ind @ [0x20, 0x20])"
    by (auto simp: fun_eq_iff member_gap_def)
  then show ?thesis using assms by simp
qed

lemma member_gap_Cons:
  "member_gap i (k, v) @ rest =
     0x22 # jsonEscape k @ 0x22 # 0x3A # 0x20 # JSON_stringify_gap i v @ rest"
  by (simp add: member_gap_def quoteJSON_def del: JSON_stringify_gap.simps)

lemma parseMembers_step_gap:
  assumes "parseValue n (0x20 # JSON_stringify_gap i v @ r3) = Some (v, r3)"
    "list_all jsonWs w" "skipWs r3 = c3 # r4"
  shows "parseMembers (Suc n) (w @ member_gap i (k, v) @ r3) =
     (if c3 = 0x7D then Some ([(k, v)], r4)
      else if c3 = 0x2C then
        (case parseMembers n r4 of None \<Rightarrow> None | Some (kvs, r5) \<Rightarrow> Some ((k, v) # kvs, r5))
      else None)"
  unfolding member_gap_Cons
  using assms
  by (simp add: skipWs_ws skipWs_nonws parse_jsonEscape
      del: parseStringBody.simps JSON_stringify_gap.simps)

lemma parses_gapD:
  "parses_gap i (k, v) \<Longrightarrow> fuel v \<le> n \<Longrightarrow> list_all jsonWs w \<Longrightarrow>
     parseValue n (w @ JSON_stringify_gap i v @ rest) = Some (v, rest)"
  by (simp add: parses_gap_def)

lemma ws_simps [simp]: "jsonWs 0x20" "jsonWs 0x0A"
  by (simp_all add: jsonWs_def)

lemma parseMembers_join_gap:
  "kvs \<noteq> [] \<Longrightarrow> list_all (parses_gap i) kvs \<Longrightarrow>
   sum_list (map (\<lambda>(k, v). 1 + fuel v) kvs) \<le> m \<Longrightarrow> list_all jsonWs w \<Longrightarrow>
   list_all jsonWs i \<Longrightarrow> list_all jsonWs e \<Longrightarrow>
     parseMembers m (w @ join ([0x2C, 0x0A] @ i) (map (member_gap i) kvs) @ e @ 0x7D # rest) =
       Some (kvs, rest)"
proof (induction kvs arbitrary: m w rule: list_nonempty_induct)
  case (single kv)
  obtain k v where kv: "kv = (k, v)" by (cases kv)
  from single(2) kv obtain n where m: "m = Suc n" "fuel v \<le> n" by (cases m) auto
  have a: "parseValue n (0x20 # JSON_stringify_gap i v @ e @ 0x7D # rest) = Some (v, e @ 0x7D # rest)"
    using single(1) kv m parses_gapD [of i k v n "[0x20]" "e @ 0x7D # rest"]
    by (simp del: JSON_stringify_gap.simps parseValue.simps)
  have s: "skipWs (e @ 0x7D # rest) = 0x7D # rest"
    using single(5) by (simp add: skipWs_ws)
  from parseMembers_step_gap [OF a single(3) s, of k] show ?case
    unfolding kv m(1)
    by (simp del: JSON_stringify_gap.simps parseMembers.simps parseValue.simps)
next
  case (cons kv kvs)
  obtain k v where kv: "kv = (k, v)" by (cases kv)
  from cons(4) kv obtain n where m: "m = Suc n" "fuel v \<le> n"
    "sum_list (map (\<lambda>(k, v). 1 + fuel v) kvs) \<le> n" by (cases m) auto
  let ?r4 = "(0x0A # i) @ join ([0x2C, 0x0A] @ i) (map (member_gap i) kvs) @ e @ 0x7D # rest"
  have a: "parseValue n (0x20 # JSON_stringify_gap i v @ 0x2C # ?r4) = Some (v, 0x2C # ?r4)"
    using cons(3) kv m parses_gapD [of i k v n "[0x20]" "0x2C # ?r4"]
    by (simp del: JSON_stringify_gap.simps parseValue.simps)
  have s: "skipWs (0x2C # ?r4) = 0x2C # ?r4" by (simp add: skipWs_nonws)
  have "list_all (parses_gap i) kvs" using cons(3) by simp
  moreover have "list_all jsonWs (0x0A # i)" using cons(6) by simp
  ultimately have b: "parseMembers n ?r4 = Some (kvs, rest)"
    using cons(2) [OF _ m(3) _ cons(6) cons(7)] by blast
  have j: "join ([0x2C, 0x0A] @ i) (map (member_gap i) (kv # kvs)) @ e @ 0x7D # rest =
      member_gap i (k, v) @ 0x2C # ?r4"
    using cons(1) kv by (cases kvs) simp_all
  have "parseMembers (Suc n) (w @ member_gap i (k, v) @ 0x2C # ?r4) = Some ((k, v) # kvs, rest)"
    using parseMembers_step_gap [OF a cons(5) s, of k] b
    by (simp del: parseMembers.simps parseValue.simps)
  then show ?case
    unfolding m(1) kv j [unfolded kv] .
qed

lemma member_gap_starts:
  "kvs \<noteq> [] \<Longrightarrow> \<exists>ds. join sep (map (member_gap i) kvs) @ rest = 0x22 # ds"
proof -
  assume "kvs \<noteq> []"
  then obtain kv kvs' where k: "kvs = kv # kvs'" by (cases kvs) auto
  obtain k v where kv: "kv = (k, v)" by (cases kv)
  show ?thesis
    unfolding k kv by (cases kvs') (simp_all add: member_gap_def quoteJSON_def del: JSON_stringify_gap.simps)
qed

lemma parseValue_gap:
  "wfv v \<Longrightarrow> fuel v \<le> n \<Longrightarrow> list_all jsonWs ind \<Longrightarrow> list_all jsonWs w \<Longrightarrow>
     parseValue n (w @ JSON_stringify_gap ind v @ rest) = Some (v, rest)"
proof (induction v arbitrary: n ind w rest)
  case (JStr s)
  then obtain m where m: "n = Suc m" by (cases n) auto
  show ?case
    unfolding m using JStr(4)
    by (simp add: quoteJSON_Cons skipWs_ws parse_jsonEscape del: parseStringBody.simps)
next
  case (JObj kvs)
  from JObj(3) obtain m where m: "n = Suc m" "sum_list (map (\<lambda>(k, v). 1 + fuel v) kvs) \<le> m"
    by (cases n) auto
  show ?case
  proof (cases "kvs = []")
    case True
    then show ?thesis unfolding m using JObj(5) by (simp add: skipWs_ws skipWs_nonws)
  next
    case False
    let ?i = "ind @ [0x20, 0x20]"
    have i: "list_all jsonWs ?i" using JObj(4) by simp
    have "parses_gap ?i kv" if "kv \<in> set kvs" for kv
    proof -
      obtain k v where kv: "kv = (k, v)" by (cases kv)
      from that JObj(2) kv have w: "wfv v" by (auto simp: list_all_iff)
      have "v \<in> Basic_BNFs.snds kv" using kv by simp
      from JObj(1) [OF that this w _ i] show ?thesis
        unfolding parses_gap_def kv by simp
    qed
    then have "list_all (parses_gap ?i) kvs" by (simp add: list_all_iff)
    from parseMembers_join_gap [OF False this m(2) _ i, of "[]" "0x0A # ind" rest] JObj(4)
    have pm: "parseMembers m (join ([0x2C, 0x0A] @ ?i) (map (member_gap ?i) kvs) @
        (0x0A # ind) @ 0x7D # rest) = Some (kvs, rest)"
      by simp
    from member_gap_starts [OF False] obtain ds where
      ds: "join ([0x2C, 0x0A] @ ?i) (map (member_gap ?i) kvs) @ (0x0A # ind) @ 0x7D # rest = 0x22 # ds"
      by blast
    have d: "distinct (map fst kvs)" using JObj(2) by simp
    have s1: "skipWs (w @ 0x7B # 0x0A # ind @ 0x20 # 0x20 # 0x22 # ds) =
        0x7B # 0x0A # ind @ 0x20 # 0x20 # 0x22 # ds"
      using JObj(5) by (simp add: skipWs_ws)
    have s2: "skipWs (0x0A # ind @ 0x20 # 0x20 # 0x22 # ds) = 0x22 # ds"
      using i skipWs_ws [of "0x0A # ?i" "0x22" ds] by simp
    have "parseValue (Suc m) (w @ 0x7B # (0x0A # ?i) @ 0x22 # ds) = Some (JObj kvs, rest)"
      using pm d unfolding ds by (simp add: s1 s2 del: parseMembers.simps)
    moreover have "w @ JSON_stringify_gap ind (JObj kvs) @ rest = w @ 0x7B # (0x0A # ?i) @ 0x22 # ds"
      unfolding JSON_stringify_gap_obj [OF False] using ds by simp
    ultimately show ?thesis unfolding m(1) by simp
  qed
qed

lemma fuel_le_length_gap: "fuel v \<le> length (JSON_stringify_gap ind v)"
proof (induction v arbitrary: ind)
  case (JStr s)
  then show ?case by (simp add: quoteJSON_def)
next
  case (JObj kvs)
  show ?case
  proof (cases "kvs = []")
    case True
    then show ?thesis by simp
  next
    case False
    let ?i = "ind @ [0x20, 0x20]"
    have "1 + fuel (snd kv) \<le> length (member_gap ?i kv)" if "kv \<in> set kvs" for kv
    proof -
      obtain k v where kv: "kv = (k, v)" by (cases kv)
      have "v \<in> Basic_BNFs.snds kv" using kv by simp
      from JObj [OF that this, of ?i] show ?thesis
        unfolding kv by (simp add: member_gap_def quoteJSON_def del: JSON_stringify_gap.simps)
    qed
    then have "sum_list (map (\<lambda>kv. 1 + fuel (snd kv)) kvs) \<le>
        sum_list (map (\<lambda>kv. length (member_gap ?i kv)) kvs)"
      by (rule sum_list_mono)
    also have "\<dots> = sum_list (map length (map (member_gap ?i) kvs))" by (simp add: comp_def)
    also have "\<dots> \<le> length (join ([0x2C, 0x0A] @ ?i) (map (member_gap ?i) kvs))"
      by (rule length_join_ge)
    finally have "sum_list (map (\<lambda>kv. 1 + fuel (snd kv)) kvs) \<le>
        length (join ([0x2C, 0x0A] @ ?i) (map (member_gap ?i) kvs))" .
    then show ?thesis
      unfolding JSON_stringify_gap_obj [OF False] by (simp add: case_prod_unfold)
  qed
qed

lemma JSON_parse_stringify_2: "wfv v \<Longrightarrow> JSON_parse (JSON_stringify_2 v) = Some v"
  using parseValue_gap [OF _ fuel_le_length_gap, where ind = "[]" and w = "[]" and rest = "[]" and v = v]
  by (simp add: JSON_parse_def JSON_stringify_2_def skipWs_def del: JSON_stringify_gap.simps)

section \<open>Claims about the round trips\<close>

lemma split_on_nonempty: "split_on sep s \<noteq> []"
  by (induction s) (auto split: list.splits)

lemma split_on_none: "sep \<notin> set s \<Longrightarrow> split_on sep s = [s]"
  by (induction s) auto

lemma split_on_append:
  "sep \<notin> set a \<Longrightarrow> split_on sep (a @ sep # b) = a # split_on sep b"
  by (induction a) (auto split: list.splits simp: split_on_nonempty)

lemma hexUpper_not_amp: "n < 16 \<Longrightarrow> hexUpper n \<noteq> 0x26"
  by (simp add: word_eq_iff_unsigned [where ?'a = nat] hexUpper_unat)

lemma pctByte_no_amp: "b < 256 \<Longrightarrow> 0x26 \<notin> set (pctByte b)"
proof -
  assume "b < 256"
  then have "b div 16 < 16" "b mod 16 < 16" by simp_all
  from this [THEN hexUpper_not_amp] show ?thesis
    by (auto simp: pctByte_def)
qed

lemma utf8_bytes: "v < 0x110000 \<Longrightarrow> list_all (\<lambda>b. b < 256) (utf8 v)"
proof -
  assume v: "v < 0x110000"
  have m: "x mod 64 < 128" for x :: nat
    using mod_less_divisor [of 64 x] by linarith
  have a: "v div 64 < 64" if "v < 2048"
    using that by (intro less_mult_imp_div_less) simp
  have b: "v div 4096 < 32" if "v < 65536"
    using that by (intro less_mult_imp_div_less) simp
  have c: "v div 262144 < 16"
    using v by (intro less_mult_imp_div_less) simp
  show ?thesis
    using m a b c by (simp add: utf8_def)
qed

lemma pctEncode_no_amp: "v < 0x110000 \<Longrightarrow> 0x26 \<notin> set (pctEncode v)"
  using utf8_bytes [of v] pctByte_no_amp
  by (auto simp: pctEncode_def list_all_iff)

lemma uriUnescaped_not_amp: "uriUnescaped c \<Longrightarrow> c \<noteq> 0x26"
  by (auto simp: uriUnescaped_def)

lemma encodeURIComponent_no_amp:
  "encodeURIComponent s = Inr e \<Longrightarrow> 0x26 \<notin> set e"
proof (induction s arbitrary: e rule: encodeURIComponent.induct)
  case 1
  then show ?case by simp
next
  case (2 c cs)
  show ?case
  proof (cases "uriUnescaped c")
    case True
    with 2(4) obtain r where r: "encodeURIComponent cs = Inr r" "e = c # r"
      by (auto simp: bindE_Inr_iff)
    from 2(1) [OF True r(1)] uriUnescaped_not_amp [OF True] r(2) show ?thesis by auto
  next
    case nu: False
    show ?thesis
    proof (cases "isLowSurrogate c")
      case True
      with nu 2(4) show ?thesis by simp
    next
      case nl: False
      show ?thesis
      proof (cases "isHighSurrogate c")
        case False
        with nu nl 2(4) obtain r where r: "encodeURIComponent cs = Inr r"
          "e = pctEncode (unat c) @ r"
          by (auto simp: bindE_Inr_iff)
        have "unat c < 0x110000" using unat_lt16 [of c] by simp
        from pctEncode_no_amp [OF this] 2(2) [OF nu nl False r(1)] r(2) show ?thesis by auto
      next
        case True
        with nu nl 2(4) obtain d ds r where r: "cs = d # ds" "isLowSurrogate d"
          "encodeURIComponent ds = Inr r" "e = pctEncode (pairCodePoint c d) @ r"
          by (auto simp: bindE_Inr_iff split: list.splits if_splits)
        have "\<not> \<not> isHighSurrogate c" using True by simp
        from 2(3) [OF nu nl this r(1) r(2) r(3)] pctEncode_no_amp
          [OF pairCodePoint_range(2) [OF True r(2)]] r(4)
        show ?thesis by auto
      qed
    qed
  qed
qed

lemma b64char_not_amp: "n < 64 \<Longrightarrow> b64char n \<noteq> 0x26"
  by (auto simp: word_eq_iff_unsigned [where ?'a = nat] b64char_unat)

lemma b64enc_no_amp: "list_all (\<lambda>b. b < 256) bs \<Longrightarrow> 0x26 \<notin> set (b64enc bs)"
  by (induction bs rule: b64enc.induct) (simp_all add: b64char_not_amp sextet_bounds)

lemma btoa_no_amp: "btoa s = Inr p \<Longrightarrow> 0x26 \<notin> set p"
proof -
  assume a: "btoa s = Inr p"
  then have l: "list_all (\<lambda>c. c \<le> 0xFF) s" and e: "p = b64enc (map unat s)"
    by (auto simp: btoa_def split: if_splits)
  have "list_all (\<lambda>b. b < 256) (map unat s)"
    using l by (induction s) (auto simp: word_le_nat_alt)
  from b64enc_no_amp [OF this] e show ?thesis by simp
qed

lemma rawQueryParam_config:
  assumes "0x3F \<notin> set base" "0x26 \<notin> set en" "0x26 \<notin> set p"
  shows "rawQueryParam (js ''config'') (base @ js ''?name='' @ en @ js ''&config='' @ p) = Some p"
proof -
  have d: "dropWhile (\<lambda>c. c \<noteq> 0x3F) (base @ 0x3F # x) = 0x3F # x" for x
    using assms(1) by (induction base) auto
  have q: "queryString (base @ js ''?name='' @ en @ js ''&config='' @ p) =
      (js ''name='' @ en) @ 0x26 # (js ''config='' @ p)"
    using d [of "js ''name='' @ en @ js ''&config='' @ p"] by (simp add: queryString_def js_def)
  have n1: "0x26 \<notin> set (js ''name='' @ en)" using assms(2) by (simp add: js_def)
  have n2: "0x26 \<notin> set (js ''config='' @ p)" using assms(3) by (simp add: js_def)
  have s: "split_on 0x26 (queryString (base @ js ''?name='' @ en @ js ''&config='' @ p)) =
      [js ''name='' @ en, js ''config='' @ p]"
    unfolding q split_on_append [OF n1] split_on_none [OF n2] ..
  show ?thesis
    unfolding rawQueryParam_def s by (simp add: js_def)
qed

lemma rawQueryParam_name:
  assumes "0x3F \<notin> set base" "0x26 \<notin> set en"
  shows "rawQueryParam (js ''name'') (base @ js ''?name='' @ en @ js ''&config='' @ p) = Some en"
proof -
  have d: "dropWhile (\<lambda>c. c \<noteq> 0x3F) (base @ 0x3F # x) = 0x3F # x" for x
    using assms(1) by (induction base) auto
  have q: "queryString (base @ js ''?name='' @ en @ js ''&config='' @ p) =
      (js ''name='' @ en) @ 0x26 # (js ''config='' @ p)"
    using d [of "js ''name='' @ en @ js ''&config='' @ p"] by (simp add: queryString_def js_def)
  have n1: "0x26 \<notin> set (js ''name='' @ en)" using assms(2) by (simp add: js_def)
  show ?thesis
    unfolding rawQueryParam_def q split_on_append [OF n1] by (simp add: js_def)
qed

lemma bases_no_query: "0x3F \<notin> set cursorBase" "0x3F \<notin> set vscodeBase"
  by (simp_all add: cursorBase_def vscodeBase_def js_def)

lemma gen_deepLinks:
  assumes "generateMCPConfig mcpUrl serverName = Inr configs"
  shows "\<exists>en p q.
     encodeURIComponent serverName = Inr en \<and>
     btoa (JSON_stringify (JObj [(js ''url'', JStr mcpUrl)])) = Inr p \<and>
     encodeURIComponent
       (JSON_stringify (JObj [(js ''type'', JStr (js ''http'')), (js ''url'', JStr mcpUrl)])) = Inr q \<and>
     map deepLink configs =
       [Some (cursorBase @ js ''?name='' @ en @ js ''&config='' @ p),
        Some (vscodeBase @ js ''?name='' @ en @ js ''&config='' @ q),
        None, None, None, None, None, None]"
proof -
  have c: "js ''https://cursor.com/en/install-mcp?name='' = cursorBase @ js ''?name=''"
    by (simp add: cursorBase_def js_def)
  have v: "js ''https://insiders.vscode.dev/redirect/mcp/install?name='' = vscodeBase @ js ''?name=''"
    by (simp add: vscodeBase_def js_def)
  show ?thesis
    using assms unfolding generateMCPConfig_def bindE_Inr_iff c v
    by (auto simp del: JSON_stringify.simps)
qed

lemma wfv_fragments:
  "wfv (JObj [(js ''url'', JStr u)])"
  "wfv (JObj [(js ''type'', JStr (js ''http'')), (js ''url'', JStr u)])"
  "wfv (JObj [(js ''mcpServers'', JObj [(n, JObj [(js ''url'', JStr u)])])])"
  "wfv (JObj [(js ''mcp'', JObj [(js ''servers'',
     JObj [(n, JObj [(js ''type'', JStr (js ''http'')), (js ''url'', JStr u)])])])])"
  "wfv (JObj [(js ''mcpServers'', JObj [(n, JObj [(js ''serverUrl'', JStr u)])])])"
  "wfv (JObj [(js ''mcpServers'', JObj [(n,
     JObj [(js ''url'', JStr u), (js ''type'', JStr (js ''streamableHttp''))])])])"
  "wfv (JObj [(js ''mcpServers'', JObj [(n, JObj [(js ''httpUrl'', JStr u)])])])"
  by simp_all

lemma parsesBack_wfv: "wfv j \<Longrightarrow> parsesBack (Some j)"
  by (simp add: parsesBack_def JSON_parse_stringify JSON_parse_stringify_2
      del: JSON_stringify.simps)

text \<open>
  Claim C2. For every list \<open>generateMCPConfig\<close> returns: the five configuration
  fragments hold the input name as the only server key and the input url under the
  client's url key, and each is read back as itself from its JSON text; both deep links
  carry the percent-encoded name, which decodes to the input name; the \<open>config\<close>
  parameter of the Cursor link, base64-decoded and parsed, is the object \<open>{url}\<close>; the
  \<open>config\<close> parameter of the VS Code link, percent-decoded and parsed, is the object
  \<open>{type: "http", url}\<close>.
\<close>

theorem config_round_trip:
  "generateMCPConfig mcpUrl serverName = Inr configs \<longrightarrow>
     map configJson configs =
       [Some (JObj [(js ''mcpServers'', JObj [(serverName, JObj [(js ''url'', JStr mcpUrl)])])]),
        Some (JObj [(js ''mcp'', JObj [(js ''servers'',
          JObj [(serverName, JObj [(js ''type'', JStr (js ''http'')), (js ''url'', JStr mcpUrl)])])])]),
        None, None,
        Some (JObj [(js ''mcpServers'', JObj [(serverName, JObj [(js ''serverUrl'', JStr mcpUrl)])])]),
        Some (JObj [(js ''mcpServers'', JObj [(serverName,
          JObj [(js ''url'', JStr mcpUrl), (js ''type'', JStr (js ''streamableHttp''))])])]),
        Some (JObj [(js ''mcpServers'', JObj [(serverName, JObj [(js ''httpUrl'', JStr mcpUrl)])])]),
        None] \<and>
     list_all (\<lambda>config. parsesBack (configJson config)) configs \<and>
     (\<exists>cursorLink vscodeLink en p q.
        map deepLink configs =
          [Some cursorLink, Some vscodeLink, None, None, None, None, None, None] \<and>
        rawQueryParam (js ''name'') cursorLink = Some en \<and>
        rawQueryParam (js ''name'') vscodeLink = Some en \<and>
        decodeURIComponent en = Inr serverName \<and>
        rawQueryParam (js ''config'') cursorLink = Some p \<and>
        map_sum id JSON_parse (atob p) = Inr (Some (JObj [(js ''url'', JStr mcpUrl)])) \<and>
        rawQueryParam (js ''config'') vscodeLink = Some q \<and>
        map_sum id JSON_parse (decodeURIComponent q) =
          Inr (Some (JObj [(js ''type'', JStr (js ''http'')), (js ''url'', JStr mcpUrl)])))"
proof
  assume g: "generateMCPConfig mcpUrl serverName = Inr configs"
  note cj = gen_configJson [OF g]
  have "list_all parsesBack (map configJson configs)"
    unfolding cj using wfv_fragments(3-7) [THEN parsesBack_wfv]
    by (simp add: parsesBack_def del: JSON_stringify.simps wfv.simps)
  then have pb: "list_all (\<lambda>config. parsesBack (configJson config)) configs"
    by (simp add: list_all_iff)
  from gen_deepLinks [OF g] obtain en p q where
    e: "encodeURIComponent serverName = Inr en"
    and p: "btoa (JSON_stringify (JObj [(js ''url'', JStr mcpUrl)])) = Inr p"
    and q: "encodeURIComponent
       (JSON_stringify (JObj [(js ''type'', JStr (js ''http'')), (js ''url'', JStr mcpUrl)])) = Inr q"
    and dl: "map deepLink configs =
       [Some (cursorBase @ js ''?name='' @ en @ js ''&config='' @ p),
        Some (vscodeBase @ js ''?name='' @ en @ js ''&config='' @ q),
        None, None, None, None, None, None]"
    by (elim exE conjE)
  note na = encodeURIComponent_no_amp [OF e] and pa = btoa_no_amp [OF p]
    and qa = encodeURIComponent_no_amp [OF q]
  have 1: "rawQueryParam (js ''name'') (cursorBase @ js ''?name='' @ en @ js ''&config='' @ p) = Some en"
    by (rule rawQueryParam_name [OF bases_no_query(1) na])
  have 2: "rawQueryParam (js ''name'') (vscodeBase @ js ''?name='' @ en @ js ''&config='' @ q) = Some en"
    by (rule rawQueryParam_name [OF bases_no_query(2) na])
  have 3: "decodeURIComponent en = Inr serverName" by (rule decode_encode [OF e])
  have 4: "rawQueryParam (js ''config'') (cursorBase @ js ''?name='' @ en @ js ''&config='' @ p) = Some p"
    by (rule rawQueryParam_config [OF bases_no_query(1) na pa])
  have 5: "map_sum id JSON_parse (atob p) = Inr (Some (JObj [(js ''url'', JStr mcpUrl)]))"
    unfolding atob_btoa [OF p] using JSON_parse_stringify [OF wfv_fragments(1), of mcpUrl]
    by (simp del: JSON_stringify.simps)
  have 6: "rawQueryParam (js ''config'') (vscodeBase @ js ''?name='' @ en @ js ''&config='' @ q) = Some q"
    by (rule rawQueryParam_config [OF bases_no_query(2) na qa])
  have 7: "map_sum id JSON_parse (decodeURIComponent q) =
          Inr (Some (JObj [(js ''type'', JStr (js ''http'')), (js ''url'', JStr mcpUrl)]))"
    unfolding decode_encode [OF q] using JSON_parse_stringify [OF wfv_fragments(2), of mcpUrl]
    by (simp del: JSON_stringify.simps)
  from cj pb dl 1 2 3 4 5 6 7
  show "map configJson configs =
       [Some (JObj [(js ''mcpServers'', JObj [(serverName, JObj [(js ''url'', JStr mcpUrl)])])]),
        Some (JObj [(js ''mcp'', JObj [(js ''servers'',
          JObj [(serverName, JObj [(js ''type'', JStr (js ''http'')), (js ''url'', JStr mcpUrl)])])])]),
        None, None,
        Some (JObj [(js ''mcpServers'', JObj [(serverName, JObj [(js ''serverUrl'', JStr mcpUrl)])])]),
        Some (JObj [(js ''mcpServers'', JObj [(serverName,
          JObj [(js ''url'', JStr mcpUrl), (js ''type'', JStr (js ''streamableHttp''))])])]),
        Some (JObj [(js ''mcpServers'', JObj [(serverName, JObj [(js ''httpUrl'', JStr mcpUrl)])])]),
        None] \<and>
     list_all (\<lambda>config. parsesBack (configJson config)) configs \<and>
     (\<exists>cursorLink vscodeLink en p q.
        map deepLink configs =
          [Some cursorLink, Some vscodeLink, None, None, None, None, None, None] \<and>
        rawQueryParam (js ''name'') cursorLink = Some en \<and>
        rawQueryParam (js ''name'') vscodeLink = Some en \<and>
        decodeURIComponent en = Inr serverName \<and>
        rawQueryParam (js ''config'') cursorLink = Some p \<and>
        map_sum id JSON_parse (atob p) = Inr (Some (JObj [(js ''url'', JStr mcpUrl)])) \<and>
        rawQueryParam (js ''config'') vscodeLink = Some q \<and>
        map_sum id JSON_parse (decodeURIComponent q) =
          Inr (Some (JObj [(js ''type'', JStr (js ''http'')), (js ''url'', JStr mcpUrl)])))"
    by (intro conjI exI [of _ "cursorBase @ js ''?name='' @ en @ js ''&config='' @ p"]
        exI [of _ "vscodeBase @ js ''?name='' @ en @ js ''&config='' @ q"]
        exI [of _ en] exI [of _ p] exI [of _ q])
qed

lemma example_name_encoded: "encodeURIComponent (js ''My Server'') = Inr (js ''My%20Server'')"
  by (simp add: js_def uriUnescaped_def isLowSurrogate_def isHighSurrogate_def pctEncode_def
      utf8_def pctByte_def hexUpper_def)

lemma example_cursor_config:
  "btoa (JSON_stringify (JObj [(js ''url'', JStr (js ''https://e.com/mcp''))])) =
     Inr (js ''eyJ1cmwiOiJodHRwczovL2UuY29tL21jcCJ9'')"
  by (simp add: btoa_def quoteJSON_def js_def isLowSurrogate_def isHighSurrogate_def b64char_def)

lemma example_vscode_config:
  "encodeURIComponent
     (JSON_stringify (JObj [(js ''type'', JStr (js ''http'')), (js ''url'', JStr (js ''https://e.com/mcp''))])) =
     Inr (js ''%7B%22type%22%3A%22http%22%2C%22url%22%3A%22https%3A%2F%2Fe.com%2Fmcp%22%7D'')"
  by (simp add: quoteJSON_def js_def uriUnescaped_def isLowSurrogate_def isHighSurrogate_def
      pctEncode_def utf8_def pctByte_def hexUpper_def)

text \<open>
  The deep links for the name \<open>My Server\<close> at \<open>https://e.com/mcp\<close>, and what their
  parameters decode to.
\<close>

theorem config_round_trip_witness:
  "\<exists>configs.
     generateMCPConfig (js ''https://e.com/mcp'') (js ''My Server'') = Inr configs \<and>
     map deepLink configs =
       [Some (cursorBase @ js ''?name=My%20Server&config=eyJ1cmwiOiJodHRwczovL2UuY29tL21jcCJ9''),
        Some (vscodeBase @ js ''?name=My%20Server&config=%7B%22type%22%3A%22http%22%2C%22url%22%3A%22https%3A%2F%2Fe.com%2Fmcp%22%7D''),
        None, None, None, None, None, None] \<and>
     list_all (\<lambda>config. parsesBack (configJson config)) configs \<and>
     decodeURIComponent (js ''My%20Server'') = Inr (js ''My Server'') \<and>
     map_sum id JSON_parse (atob (js ''eyJ1cmwiOiJodHRwczovL2UuY29tL21jcCJ9'')) =
       Inr (Some (JObj [(js ''url'', JStr (js ''https://e.com/mcp''))])) \<and>
     map_sum id JSON_parse
       (decodeURIComponent
          (js ''%7B%22type%22%3A%22http%22%2C%22url%22%3A%22https%3A%2F%2Fe.com%2Fmcp%22%7D'')) =
       Inr (Some (JObj [(js ''type'', JStr (js ''http'')), (js ''url'', JStr (js ''https://e.com/mcp''))]))"
proof -
  let ?u = "js ''https://e.com/mcp''" and ?n = "js ''My Server''"
  let ?en = "js ''My%20Server''" and ?p = "js ''eyJ1cmwiOiJodHRwczovL2UuY29tL21jcCJ9''"
  let ?q = "js ''%7B%22type%22%3A%22http%22%2C%22url%22%3A%22https%3A%2F%2Fe.com%2Fmcp%22%7D''"
  have "ascii ?n" by (simp add: js_def)
  from ascii_returns [OF this ascii_js_url] obtain configs where
    g: "generateMCPConfig ?u ?n = Inr configs" by blast
  from gen_deepLinks [OF g] have dl: "map deepLink configs =
       [Some (cursorBase @ js ''?name='' @ ?en @ js ''&config='' @ ?p),
        Some (vscodeBase @ js ''?name='' @ ?en @ js ''&config='' @ ?q),
        None, None, None, None, None, None]"
    unfolding example_name_encoded example_cursor_config example_vscode_config by auto
  note na = encodeURIComponent_no_amp [OF example_name_encoded]
    and pa = btoa_no_amp [OF example_cursor_config]
    and qa = encodeURIComponent_no_amp [OF example_vscode_config]
  from config_round_trip [of ?u ?n configs, rule_format, OF g]
  obtain cursorLink vscodeLink en p q where
    r: "list_all (\<lambda>config. parsesBack (configJson config)) configs"
      "map deepLink configs = [Some cursorLink, Some vscodeLink, None, None, None, None, None, None]"
      "rawQueryParam (js ''name'') cursorLink = Some en"
      "decodeURIComponent en = Inr ?n"
      "rawQueryParam (js ''config'') cursorLink = Some p"
      "map_sum id JSON_parse (atob p) = Inr (Some (JObj [(js ''url'', JStr ?u)]))"
      "rawQueryParam (js ''config'') vscodeLink = Some q"
      "map_sum id JSON_parse (decodeURIComponent q) =
         Inr (Some (JObj [(js ''type'', JStr (js ''http'')), (js ''url'', JStr ?u)]))"
    by (elim exE conjE) (erule (7) that)
  from r(2) dl have l: "cursorLink = cursorBase @ js ''?name='' @ ?en @ js ''&config='' @ ?p"
    "vscodeLink = vscodeBase @ js ''?name='' @ ?en @ js ''&config='' @ ?q" by simp_all
  have "en = ?en"
    using r(3) rawQueryParam_name [OF bases_no_query(1) na, of ?p] unfolding l by simp
  moreover have "p = ?p"
    using r(5) rawQueryParam_config [OF bases_no_query(1) na pa] unfolding l by simp
  moreover have "q = ?q"
    using r(7) rawQueryParam_config [OF bases_no_query(2) na qa] unfolding l by simp
  moreover have "js ''?name=My%20Server&config=eyJ1cmwiOiJodHRwczovL2UuY29tL21jcCJ9'' =
      js ''?name='' @ ?en @ js ''&config='' @ ?p"
    by (simp add: js_def)
  moreover have "js ''?name=My%20Server&config=%7B%22type%22%3A%22http%22%2C%22url%22%3A%22https%3A%2F%2Fe.com%2Fmcp%22%7D'' =
      js ''?name='' @ ?en @ js ''&config='' @ ?q"
    by (simp add: js_def)
  ultimately show ?thesis
    using g dl r(1,4,6,8) by (intro exI [of _ configs]) simp
qed

end
